theory Spec2Isabelle
  imports Complex_Main "HOL-Library.Multiset" "HOL-Library.Word" "HOL-Library.Signed_Division"
begin

section \<open>Conventions of the embedding\<close>

text \<open>
  The source is \<^verbatim>\<open>src/js/particle-simulation.js\<close>. The \<^verbatim>\<open>i32\<close> values of the kernels are
  32-bit words read as signed integers, so their arithmetic wraps. The morph state machine runs
  on JavaScript numbers, and its arithmetic is modelled with the rounding of binary64. The
  \<^verbatim>\<open>f32\<close> arithmetic of the compute kernels and the pointer force of \<^verbatim>\<open>render\<close> are modelled
  over exact reals; the fixed-point codec is given in both forms, over exact reals as the
  kernels use it and with the rounding of binary32. A buffer access outside the buffer and a
  division by zero are error values of the kernel that performs them. A compute dispatch is
  modelled as the sequential run of its invocations in a given order.
\<close>

subsection \<open>Vectors and matrices\<close>

datatype vec3 = Vec3 (vec_x: real) (vec_y: real) (vec_z: real)

datatype vec4 = Vec4 (vec4_x: real) (vec4_y: real) (vec4_z: real) (vec4_w: real)

type_synonym i32 = "32 word"

datatype ivec3 = IVec3 (ivec_x: i32) (ivec_y: i32) (ivec_z: i32)

text \<open>A \<^verbatim>\<open>mat3\<close> is stored by columns, as in WGSL.\<close>

datatype mat3 = Mat3 (col0: vec3) (col1: vec3) (col2: vec3)

definition vsub :: "vec3 \<Rightarrow> vec3 \<Rightarrow> vec3" where
  "vsub a b = Vec3 (vec_x a - vec_x b) (vec_y a - vec_y b) (vec_z a - vec_z b)"

definition vadd :: "vec3 \<Rightarrow> vec3 \<Rightarrow> vec3" where
  "vadd a b = Vec3 (vec_x a + vec_x b) (vec_y a + vec_y b) (vec_z a + vec_z b)"

definition vmul :: "vec3 \<Rightarrow> vec3 \<Rightarrow> vec3" where
  "vmul a b = Vec3 (vec_x a * vec_x b) (vec_y a * vec_y b) (vec_z a * vec_z b)"

definition vdiv :: "vec3 \<Rightarrow> vec3 \<Rightarrow> vec3" where
  "vdiv a b = Vec3 (vec_x a / vec_x b) (vec_y a / vec_y b) (vec_z a / vec_z b)"

definition vscale :: "vec3 \<Rightarrow> real \<Rightarrow> vec3" where
  "vscale a s = Vec3 (vec_x a * s) (vec_y a * s) (vec_z a * s)"

definition vsplat :: "real \<Rightarrow> vec3" where
  "vsplat s = Vec3 s s s"

definition vlength :: "vec3 \<Rightarrow> real" where
  "vlength a = sqrt (vec_x a * vec_x a + vec_y a * vec_y a + vec_z a * vec_z a)"

definition vnormalize :: "vec3 \<Rightarrow> vec3" where
  "vnormalize a = Vec3 (vec_x a / vlength a) (vec_y a / vlength a) (vec_z a / vlength a)"

definition vcross :: "vec3 \<Rightarrow> vec3 \<Rightarrow> vec3" where
  "vcross a b = Vec3 (vec_y a * vec_z b - vec_z a * vec_y b)
                     (vec_z a * vec_x b - vec_x a * vec_z b)
                     (vec_x a * vec_y b - vec_y a * vec_x b)"

definition vfract :: "vec3 \<Rightarrow> vec3" where
  "vfract a = Vec3 (frac (vec_x a)) (frac (vec_y a)) (frac (vec_z a))"

text \<open>WGSL \<^verbatim>\<open>clamp(e, low, high)\<close> on floats is \<^verbatim>\<open>min(max(e, low), high)\<close>, per component.\<close>

definition vclamp :: "vec3 \<Rightarrow> vec3 \<Rightarrow> vec3 \<Rightarrow> vec3" where
  "vclamp e low high =
     Vec3 (min (max (vec_x e) (vec_x low)) (vec_x high))
          (min (max (vec_y e) (vec_y low)) (vec_y high))
          (min (max (vec_z e) (vec_z low)) (vec_z high))"

definition mat_vec :: "mat3 \<Rightarrow> vec3 \<Rightarrow> vec3" where
  "mat_vec m v =
     vadd (vadd (vscale (col0 m) (vec_x v)) (vscale (col1 m) (vec_y v))) (vscale (col2 m) (vec_z v))"

definition madd :: "mat3 \<Rightarrow> mat3 \<Rightarrow> mat3" where
  "madd a b = Mat3 (vadd (col0 a) (col0 b)) (vadd (col1 a) (col1 b)) (vadd (col2 a) (col2 b))"

definition mscale :: "mat3 \<Rightarrow> real \<Rightarrow> mat3" where
  "mscale a s = Mat3 (vscale (col0 a) s) (vscale (col1 a) s) (vscale (col2 a) s)"

definition mtranspose :: "mat3 \<Rightarrow> mat3" where
  "mtranspose a =
     Mat3 (Vec3 (vec_x (col0 a)) (vec_x (col1 a)) (vec_x (col2 a)))
          (Vec3 (vec_y (col0 a)) (vec_y (col1 a)) (vec_y (col2 a)))
          (Vec3 (vec_z (col0 a)) (vec_z (col1 a)) (vec_z (col2 a)))"

subsection \<open>Conversions between \<^verbatim>\<open>f32\<close> and \<^verbatim>\<open>i32\<close>\<close>

text \<open>
  The WGSL value conversion \<^verbatim>\<open>i32(e)\<close> of a float rounds toward zero and clamps to the
  range of \<^verbatim>\<open>i32\<close>. This is what the TSL node \<^verbatim>\<open>int(...)\<close> and the constructor
  \<^verbatim>\<open>ivec3(...)\<close> compile to.
\<close>

definition truncateReal :: "real \<Rightarrow> int" where
  "truncateReal r = (if 0 \<le> r then \<lfloor>r\<rfloor> else \<lceil>r\<rceil>)"

definition toInt :: "real \<Rightarrow> i32" where
  "toInt r = word_of_int (max (- 2147483648) (min 2147483647 (truncateReal r)))"

definition toFloat :: "i32 \<Rightarrow> real" where
  "toFloat i = real_of_int (sint i)"

definition ivec3_of_vec3 :: "vec3 \<Rightarrow> ivec3" where
  "ivec3_of_vec3 v = IVec3 (toInt (vec_x v)) (toInt (vec_y v)) (toInt (vec_z v))"

definition vec3_of_ivec3 :: "ivec3 \<Rightarrow> vec3" where
  "vec3_of_ivec3 v = Vec3 (toFloat (ivec_x v)) (toFloat (ivec_y v)) (toFloat (ivec_z v))"

definition iadd :: "ivec3 \<Rightarrow> ivec3 \<Rightarrow> ivec3" where
  "iadd a b = IVec3 (ivec_x a + ivec_x b) (ivec_y a + ivec_y b) (ivec_z a + ivec_z b)"

definition isubs :: "ivec3 \<Rightarrow> i32 \<Rightarrow> ivec3" where
  "isubs a s = IVec3 (ivec_x a - s) (ivec_y a - s) (ivec_z a - s)"

section \<open>Rounding of floating-point arithmetic\<close>

text \<open>
  JavaScript numbers are IEEE 754 binary64 values and the \<^verbatim>\<open>f32\<close> values of the kernels are
  binary32 values. Every arithmetic operation of such a format returns the representable number
  nearest to the exact result, a tie going to the neighbour with the even significand.
  \<open>roundTiesToEven\<close> is that choice among the integers. \<open>binadeFrom n e a\<close> is the binary
  exponent of the magnitude \<open>a\<close>, searched upward from the exponent \<open>e\<close> of the smallest normal
  number over \<open>n\<close> binades, so that a smaller magnitude keeps the exponent \<open>e\<close> and with it the
  spacing of the subnormal numbers. \<open>roundBinary p emin nb\<close> rounds to \<open>p\<close> significant bits.

  The search stops at the largest exponent of the format: a magnitude beyond the largest finite
  number is rounded with the spacing of the top binade, where the machine has an infinity. The
  values rounded in the statements below are far inside the range.
\<close>

definition roundTiesToEven :: "real \<Rightarrow> int" where
  "roundTiesToEven y =
     (let f = \<lfloor>y\<rfloor>; d = y - of_int f
      in if d < 1 / 2 then f else if 1 / 2 < d then f + 1 else if even f then f else f + 1)"

fun binadeFrom :: "nat \<Rightarrow> int \<Rightarrow> real \<Rightarrow> int" where
  "binadeFrom 0 e a = e"
| "binadeFrom (Suc n) e a = (if 2 powi (e + 1) \<le> a then binadeFrom n (e + 1) a else e)"

definition roundBinary :: "nat \<Rightarrow> int \<Rightarrow> nat \<Rightarrow> real \<Rightarrow> real" where
  "roundBinary p emin nb x =
     (let e = binadeFrom nb emin \<bar>x\<bar>;
          q = 2 powi (e - int p + 1)
      in of_int (roundTiesToEven (x / q)) * q)"

text \<open>binary32: 24 significant bits, exponents from \<open>-126\<close> to 127.\<close>

definition roundF32 :: "real \<Rightarrow> real" where
  "roundF32 x = roundBinary 24 (- 126) 253 x"

text \<open>binary64: 53 significant bits, exponents from \<open>-1022\<close> to 1023.\<close>

definition roundF64 :: "real \<Rightarrow> real" where
  "roundF64 x = roundBinary 53 (- 1022) 2045 x"

section \<open>Morph state machine\<close>

text \<open>
  The module-level variables \<^verbatim>\<open>currentShapeIndex\<close>, \<^verbatim>\<open>nextShapeIndex\<close>,
  \<^verbatim>\<open>morphProgress\<close> and \<^verbatim>\<open>autoMorphRotation\<close> (lines 49-58), as one record.
\<close>

record morph_state =
  currentShapeIndex :: nat
  nextShapeIndex :: nat
  morphProgress :: real
  autoMorphRotation :: real

definition initialMorph :: morph_state where
  "initialMorph = \<lparr>currentShapeIndex = 0, nextShapeIndex = 1, morphProgress = 0,
     autoMorphRotation = 0\<rparr>"

text \<open>
  The literal \<^verbatim>\<open>0.3\<close> is the double next to \<open>3 / 10\<close>. \<^verbatim>\<open>Math.PI\<close> is the double
  \<open>884279719003555 / 2\<^sup>4\<^sup>8\<close>, and doubling it is exact.
\<close>

definition morphDuration :: real where
  "morphDuration = roundF64 (3 / 10)"

definition mathPI :: real where
  "mathPI = 884279719003555 / 281474976710656"

definition fullRotation :: real where
  "fullRotation = mathPI * 2"

definition startMorph :: "morph_state \<Rightarrow> morph_state" where
  "startMorph s = s\<lparr>morphProgress := 0, nextShapeIndex := (currentShapeIndex s + 1) mod 3\<rparr>"

text \<open>
  \<^verbatim>\<open>updateMorphing\<close> (lines 95-110). The two compound assignments and the division are
  operations on doubles, so each of their results is rounded.
\<close>

definition updateMorphing :: "real \<Rightarrow> real \<Rightarrow> morph_state \<Rightarrow> morph_state" where
  "updateMorphing deltaTime rotationDelta s0 =
     (let s1 = s0\<lparr>autoMorphRotation := roundF64 (autoMorphRotation s0 + rotationDelta)\<rparr>;
          s2 = (if autoMorphRotation s1 \<ge> fullRotation
                then startMorph (s1\<lparr>autoMorphRotation := 0\<rparr>) else s1)
      in if morphProgress s2 < 1 then
           (let s3 = s2\<lparr>morphProgress :=
                  roundF64 (morphProgress s2 + roundF64 (deltaTime / morphDuration))\<rparr>
            in if morphProgress s3 \<ge> 1
               then s3\<lparr>morphProgress := 1, currentShapeIndex := nextShapeIndex s3\<rparr>
               else s3)
         else s2)"

text \<open>\<^verbatim>\<open>THREE.MathUtils.clamp(value, min, max)\<close> is \<^verbatim>\<open>max(min, min(max, value))\<close>.\<close>

definition clampJS :: "real \<Rightarrow> real \<Rightarrow> real \<Rightarrow> real" where
  "clampJS v lo hi = max lo (min hi v)"

text \<open>
  The part of \<^verbatim>\<open>render\<close> (lines 1160-1167) that drives the morph: the clock delta is
  clamped between the doubles \<^verbatim>\<open>0.00001\<close> and \<^verbatim>\<open>1 / 60\<close>, the mesh rotates by
  \<^verbatim>\<open>deltaTime * 1\<close>, a product that is exact, and both go to \<^verbatim>\<open>updateMorphing\<close>. The clock
  delta is any real here, which covers every double the clock can return.
\<close>

definition frameDelta :: "real \<Rightarrow> real" where
  "frameDelta clockDelta = clampJS clockDelta (roundF64 (1 / 100000)) (roundF64 (1 / 60))"

definition renderMorph :: "real \<Rightarrow> morph_state \<Rightarrow> morph_state" where
  "renderMorph clockDelta s =
     (let deltaTime = frameDelta clockDelta;
          rotationThisFrame = deltaTime * 1
      in updateMorphing deltaTime rotationThisFrame s)"

definition renderFrames :: "real list \<Rightarrow> morph_state \<Rightarrow> morph_state" where
  "renderFrames clockDeltas s = fold renderMorph clockDeltas s"

text \<open>The simulated time of a run of frames: the exact sum of their clamped clock deltas.\<close>

definition simulatedTime :: "real list \<Rightarrow> real" where
  "simulatedTime clockDeltas = sum_list (map frameDelta clockDeltas)"

text \<open>
  The rotation accumulator and the progress after a run of frames on which no morph is started:
  the accumulator adds the clamped delta of every frame, and the progress, while below 1, adds
  the delta divided by \<^verbatim>\<open>morphDuration\<close> and is cut at 1.
\<close>

definition rotationAfter :: "real list \<Rightarrow> real \<Rightarrow> real" where
  "rotationAfter clockDeltas r = fold (\<lambda>d r. roundF64 (r + frameDelta d)) clockDeltas r"

definition progressStep :: "real \<Rightarrow> real \<Rightarrow> real" where
  "progressStep d p =
     (if p < 1 then min 1 (roundF64 (p + roundF64 (frameDelta d / morphDuration))) else p)"

definition progressAfter :: "real list \<Rightarrow> real \<Rightarrow> real" where
  "progressAfter clockDeltas p = fold progressStep clockDeltas p"

text \<open>
  The two accumulators differ from the exact sums by the rounding of every frame. A frame lasts
  at least \<open>10\<^sup>-\<^sup>5\<close> seconds and each of its additions is off by at most \<open>2\<^sup>-\<^sup>5\<^sup>0\<close>, so over
  a stretch of less than eight seconds the difference stays below \<open>2\<^sup>-\<^sup>3\<^sup>0\<close>. The statements
  about whole stretches of frames keep the distance \<open>roundingMargin\<close> from the two thresholds,
  the full turn and \<^verbatim>\<open>morphDuration\<close>: closer to a threshold the side on which the
  accumulator ends depends on the rounding.
\<close>

definition roundingMargin :: real where
  "roundingMargin = 1 / 2 ^ 28"


section \<open>Fixed-point codec\<close>

text \<open>Lines 291 and 639-645.\<close>

definition fixedPointMultiplier :: real where
  "fixedPointMultiplier = 10000000"

definition encodeFixedPoint :: "real \<Rightarrow> i32" where
  "encodeFixedPoint f32 = toInt (f32 * fixedPointMultiplier)"

definition decodeFixedPoint :: "i32 \<Rightarrow> real" where
  "decodeFixedPoint i32' = toFloat i32' / fixedPointMultiplier"

text \<open>
  The kernels below use the codec on exact reals. Its accuracy is a matter of the rounding
  itself, so the same two functions are also given with the binary32 arithmetic of the shader:
  the product, the conversion \<^verbatim>\<open>float(i32)\<close> and the quotient each round their result. The
  multiplier \<open>10\<^sup>7\<close> is a binary32 number.
\<close>

definition toFloatF32 :: "i32 \<Rightarrow> real" where
  "toFloatF32 i = roundF32 (real_of_int (sint i))"

definition encodeFixedPointF32 :: "real \<Rightarrow> i32" where
  "encodeFixedPointF32 f32 = toInt (roundF32 (f32 * fixedPointMultiplier))"

definition decodeFixedPointF32 :: "i32 \<Rightarrow> real" where
  "decodeFixedPointF32 i32' = roundF32 (toFloatF32 i32' / fixedPointMultiplier)"

section \<open>Pointer force\<close>


section \<open>Buffers and uniforms\<close>

text \<open>Lines 288-290: the grid is a lattice of \<open>64\<^sup>3\<close> cells.\<close>

definition gridSize1d :: int where
  "gridSize1d = 64"

definition gridSize_x :: int where
  "gridSize_x = gridSize1d"

definition gridSize_y :: int where
  "gridSize_y = gridSize1d"

definition gridSize_z :: int where
  "gridSize_z = gridSize1d"

definition gridSizeUniform :: vec3 where
  "gridSizeUniform = Vec3 (real_of_int gridSize_x) (real_of_int gridSize_y) (real_of_int gridSize_z)"

definition cellCount :: int where
  "cellCount = gridSize_x * gridSize_y * gridSize_z"

text \<open>
  The structs of \<^verbatim>\<open>setupBuffers\<close> (lines 511-516 and 597-602). The buffers are functions
  of the element index. The particle buffer and the target buffers hold 131072 elements and the
  kernels run on 60000 instances, so their indices are always in range and carry no check; the
  cell buffers hold \<open>cellCount\<close> elements and every access to them is checked
  (\<open>cellElement\<close> below).
\<close>

record particle =
  particlePosition :: vec3
  particleVelocity :: vec3
  particleC :: mat3
  targetPosition :: vec3

record cell =
  cell_x :: i32
  cell_y :: i32
  cell_z :: i32
  cell_mass :: i32

type_synonym particleBuffer = "nat \<Rightarrow> particle"

type_synonym cellBuffer = "nat \<Rightarrow> cell"

type_synonym cellBufferFloat = "nat \<Rightarrow> vec4"

text \<open>
  The uniforms the kernels read (\<^verbatim>\<open>setupUniforms\<close>, lines 608-636), and the three shape
  target buffers of lines 591-593.
\<close>

record uniforms =
  particleCountUniform :: nat
  dynamicViscosityUniform :: real
  dtUniform :: real
  gravityUniform :: vec3
  mouseRayOriginUniform :: vec3
  mouseRayDirectionUniform :: vec3
  mouseForceUniform :: vec3
  timeUniform :: real
  turbulenceStrengthUniform :: real
  turbulenceFreqUniform :: real
  wave2StrengthUniform :: real
  morphProgressUniform :: real
  currentShapeIndexUniform :: int
  nextShapeIndexUniform :: int
  wave2FreqUniform :: real
  fluidStrengthUniform :: real

record targets =
  cubeTargetBuffer :: "nat \<Rightarrow> vec3"
  coneTargetBuffer :: "nat \<Rightarrow> vec3"
  monkeyTargetBuffer :: "nat \<Rightarrow> vec3"

datatype kernel_error = OutOfBounds | DivisionByZero

text \<open>
  \<^verbatim>\<open>cellBuffer.element(cellPtr)\<close> and \<^verbatim>\<open>cellBufferFloat.element(cellPtr)\<close> with a signed
  index: both buffers have \<^verbatim>\<open>cellCount\<close> elements.
\<close>

definition cellElement :: "i32 \<Rightarrow> kernel_error + nat" where
  "cellElement cellPtr =
     (if 0 \<le> sint cellPtr \<and> sint cellPtr < cellCount then Inr (nat (sint cellPtr))
      else Inl OutOfBounds)"

definition atomicAdd_x :: "nat \<Rightarrow> i32 \<Rightarrow> cellBuffer \<Rightarrow> cellBuffer" where
  "atomicAdd_x i v buf = buf(i := (buf i)\<lparr>cell_x := cell_x (buf i) + v\<rparr>)"

definition atomicAdd_y :: "nat \<Rightarrow> i32 \<Rightarrow> cellBuffer \<Rightarrow> cellBuffer" where
  "atomicAdd_y i v buf = buf(i := (buf i)\<lparr>cell_y := cell_y (buf i) + v\<rparr>)"

definition atomicAdd_z :: "nat \<Rightarrow> i32 \<Rightarrow> cellBuffer \<Rightarrow> cellBuffer" where
  "atomicAdd_z i v buf = buf(i := (buf i)\<lparr>cell_z := cell_z (buf i) + v\<rparr>)"

definition atomicAdd_mass :: "nat \<Rightarrow> i32 \<Rightarrow> cellBuffer \<Rightarrow> cellBuffer" where
  "atomicAdd_mass i v buf = buf(i := (buf i)\<lparr>cell_mass := cell_mass (buf i) + v\<rparr>)"

text \<open>A loop whose body can fail stops at the first failure.\<close>

fun forE :: "'a list \<Rightarrow> ('a \<Rightarrow> 's \<Rightarrow> kernel_error + 's) \<Rightarrow> 's \<Rightarrow> kernel_error + 's" where
  "forE [] body s = Inr s"
| "forE (x # xs) body s = (case body x s of Inl e \<Rightarrow> Inl e | Inr s' \<Rightarrow> forE xs body s')"

text \<open>
  \<^verbatim>\<open>renderer.compute(k)\<close>: the kernel \<open>k\<close> runs once for every instance index of the
  dispatch, here in the order of the list \<open>instances\<close>.
\<close>

definition compute ::
  "(nat \<Rightarrow> 's \<Rightarrow> kernel_error + 's) \<Rightarrow> nat list \<Rightarrow> 's \<Rightarrow> kernel_error + 's" where
  "compute k instances s = forE instances k s"

section \<open>The stencil of a particle\<close>

text \<open>
  The three particle kernels start with the same expressions (lines 677-687, 734-745 and
  860-873): the grid position, the base cell index, and the three quadratic B-spline weights
  per axis. The three nested loops over \<^verbatim>\<open>gx\<close>, \<^verbatim>\<open>gy\<close>, \<^verbatim>\<open>gz\<close> from 0 to 2 visit the
  offsets in the order of \<open>stencilOffsets\<close>.
\<close>

definition gridPositionOf :: "vec3 \<Rightarrow> vec3" where
  "gridPositionOf position = vmul position gridSizeUniform"

definition cellIndexOf :: "vec3 \<Rightarrow> ivec3" where
  "cellIndexOf position = isubs (ivec3_of_vec3 (gridPositionOf position)) 1"

definition cellDiffOf :: "vec3 \<Rightarrow> vec3" where
  "cellDiffOf position = vsub (vfract (gridPositionOf position)) (vsplat (1 / 2))"

definition weightsOf :: "vec3 \<Rightarrow> vec3 list" where
  "weightsOf position =
     (let cellDiff = cellDiffOf position;
          w0 = vmul (vscale (vsub (vsplat (1 / 2)) cellDiff) (1 / 2)) (vsub (vsplat (1 / 2)) cellDiff);
          w1 = vsub (vsplat (3 / 4)) (vmul cellDiff cellDiff);
          w2 = vmul (vscale (vadd (vsplat (1 / 2)) cellDiff) (1 / 2)) (vadd (vsplat (1 / 2)) cellDiff)
      in [w0, w1, w2])"

definition stencilOffsets :: "(nat \<times> nat \<times> nat) list" where
  "stencilOffsets =
     concat (map (\<lambda>gx. concat (map (\<lambda>gy. map (\<lambda>gz. (gx, gy, gz)) [0, 1, 2]) [0, 1, 2])) [0, 1, 2])"

fun weightOf :: "vec3 \<Rightarrow> nat \<times> nat \<times> nat \<Rightarrow> real" where
  "weightOf position (gx, gy, gz) =
     vec_x (weightsOf position ! gx) * vec_y (weightsOf position ! gy) * vec_z (weightsOf position ! gz)"

fun cellXOf :: "vec3 \<Rightarrow> nat \<times> nat \<times> nat \<Rightarrow> ivec3" where
  "cellXOf position (gx, gy, gz) =
     iadd (cellIndexOf position) (IVec3 (of_nat gx) (of_nat gy) (of_nat gz))"

definition cellDistOf :: "vec3 \<Rightarrow> nat \<times> nat \<times> nat \<Rightarrow> vec3" where
  "cellDistOf position g =
     vsub (vadd (vec3_of_ivec3 (cellXOf position g)) (vsplat (1 / 2))) (gridPositionOf position)"

definition cellPtrOf :: "vec3 \<Rightarrow> nat \<times> nat \<times> nat \<Rightarrow> i32" where
  "cellPtrOf position g =
     (let cellX = cellXOf position g
      in ivec_x cellX * word_of_int (gridSize_y * gridSize_z)
         + ivec_y cellX * word_of_int gridSize_z
         + ivec_z cellX)"

section \<open>The compute kernels\<close>

subsection \<open>\<^verbatim>\<open>clearGridKernel\<close> (lines 649-660)\<close>

definition clearGridKernel :: "nat \<Rightarrow> cellBuffer \<Rightarrow> kernel_error + cellBuffer" where
  "clearGridKernel instanceIndex cellBuffer =
     (if int instanceIndex \<ge> cellCount then Inr cellBuffer
      else Inr (cellBuffer(instanceIndex :=
        (cellBuffer instanceIndex)\<lparr>cell_x := 0, cell_y := 0, cell_z := 0, cell_mass := 0\<rparr>)))"

subsection \<open>\<^verbatim>\<open>p2g1Kernel\<close> (lines 662-723)\<close>

definition p2g1Cell :: "particle \<Rightarrow> nat \<times> nat \<times> nat \<Rightarrow> cellBuffer \<Rightarrow> kernel_error + cellBuffer" where
  "p2g1Cell p g cellBuffer =
     (let weight = weightOf (particlePosition p) g;
          cellDist = cellDistOf (particlePosition p) g;
          Q = mat_vec (particleC p) cellDist;
          massContrib = weight;
          velContrib = vscale (vadd (particleVelocity p) Q) massContrib;
          cellPtr = cellPtrOf (particlePosition p) g
      in case cellElement cellPtr of
           Inl e \<Rightarrow> Inl e
         | Inr c \<Rightarrow>
             Inr (atomicAdd_mass c (encodeFixedPoint massContrib)
                   (atomicAdd_z c (encodeFixedPoint (vec_z velContrib))
                     (atomicAdd_y c (encodeFixedPoint (vec_y velContrib))
                       (atomicAdd_x c (encodeFixedPoint (vec_x velContrib)) cellBuffer)))))"

definition p2g1Kernel ::
  "uniforms \<Rightarrow> particleBuffer \<Rightarrow> nat \<Rightarrow> cellBuffer \<Rightarrow> kernel_error + cellBuffer" where
  "p2g1Kernel u particleBuffer instanceIndex cellBuffer =
     (if instanceIndex \<ge> particleCountUniform u then Inr cellBuffer
      else forE stencilOffsets (p2g1Cell (particleBuffer instanceIndex)) cellBuffer)"

subsection \<open>\<^verbatim>\<open>p2g2Kernel\<close> (lines 725-815)\<close>

definition p2g2DensityCell ::
  "vec3 \<Rightarrow> cellBuffer \<Rightarrow> nat \<times> nat \<times> nat \<Rightarrow> real \<Rightarrow> kernel_error + real" where
  "p2g2DensityCell position cellBuffer g density =
     (let weight = weightOf position g;
          cellPtr = cellPtrOf position g
      in case cellElement cellPtr of
           Inl e \<Rightarrow> Inl e
         | Inr c \<Rightarrow>
             (let mass = decodeFixedPoint (cell_mass (cellBuffer c))
              in Inr (density + mass * weight)))"

definition p2g2Density :: "vec3 \<Rightarrow> cellBuffer \<Rightarrow> kernel_error + real" where
  "p2g2Density position cellBuffer = forE stencilOffsets (p2g2DensityCell position cellBuffer) 0"

definition p2g2Cell ::
  "vec3 \<Rightarrow> mat3 \<Rightarrow> nat \<times> nat \<times> nat \<Rightarrow> cellBuffer \<Rightarrow> kernel_error + cellBuffer" where
  "p2g2Cell position eq16Term0 g cellBuffer =
     (let weight = weightOf position g;
          cellDist = cellDistOf position g;
          momentum = mat_vec (mscale eq16Term0 weight) cellDist;
          cellPtr = cellPtrOf position g
      in case cellElement cellPtr of
           Inl e \<Rightarrow> Inl e
         | Inr c \<Rightarrow>
             Inr (atomicAdd_z c (encodeFixedPoint (vec_z momentum))
                   (atomicAdd_y c (encodeFixedPoint (vec_y momentum))
                     (atomicAdd_x c (encodeFixedPoint (vec_x momentum)) cellBuffer))))"

text \<open>
  The momentum correction factor of lines 768-782, where the density is not zero. In \<^verbatim>\<open>f32\<close>
  the quotient \<^verbatim>\<open>float(1).div(density)\<close> is not finite when the density is zero; the kernel
  below reports that case as \<^verbatim>\<open>DivisionByZero\<close>.
\<close>

definition eq16Term0Of :: "uniforms \<Rightarrow> mat3 \<Rightarrow> real \<Rightarrow> mat3" where
  "eq16Term0Of u dudv density =
     (let volume = 1 / density;
          pressure = 0;
          stress0 = Mat3 (Vec3 (- pressure) 0 0) (Vec3 0 (- pressure) 0) (Vec3 0 0 (- pressure));
          strain = madd dudv (mtranspose dudv);
          stress = madd stress0 (mscale strain (dynamicViscosityUniform u))
      in mscale (mscale stress (volume * (- 4))) (dtUniform u))"

definition p2g2Kernel ::
  "uniforms \<Rightarrow> particleBuffer \<Rightarrow> nat \<Rightarrow> cellBuffer \<Rightarrow> kernel_error + cellBuffer" where
  "p2g2Kernel u particleBuffer instanceIndex cellBuffer =
     (if instanceIndex \<ge> particleCountUniform u then Inr cellBuffer
      else
        (let position = particlePosition (particleBuffer instanceIndex)
         in case p2g2Density position cellBuffer of
              Inl e \<Rightarrow> Inl e
            | Inr density \<Rightarrow>
                if density = 0 then Inl DivisionByZero
                else
                  (let dudv = particleC (particleBuffer instanceIndex);
                       eq16Term0 = eq16Term0Of u dudv density
                   in forE stencilOffsets (p2g2Cell position eq16Term0) cellBuffer)))"

subsection \<open>\<^verbatim>\<open>updateGridKernel\<close> (lines 817-849)\<close>

text \<open>
  The instance index is below \<^verbatim>\<open>cellCount\<close> past the guard, so its conversion to
  \<^verbatim>\<open>i32\<close> is exact; \<^verbatim>\<open>i32\<close> division and remainder round toward zero.
\<close>

definition updateGridKernel ::
  "cellBuffer \<Rightarrow> nat \<Rightarrow> cellBufferFloat \<Rightarrow> cellBufferFloat" where
  "updateGridKernel cellBuffer instanceIndex cellBufferFloat =
     (if int instanceIndex \<ge> cellCount then cellBufferFloat
      else
        (let c = cellBuffer instanceIndex;
             mass = decodeFixedPoint (cell_mass c)
         in if mass \<le> 0 then cellBufferFloat
            else
              (let vx = decodeFixedPoint (cell_x c) / mass;
                   vy = decodeFixedPoint (cell_y c) / mass;
                   vz = decodeFixedPoint (cell_z c) / mass;
                   x = int instanceIndex sdiv (gridSize_z * gridSize_y);
                   y = (int instanceIndex sdiv gridSize_z) smod gridSize_y;
                   z = int instanceIndex smod gridSize_z;
                   vx' = (if x < 1 \<or> x > gridSize_x - 2 then 0 else vx);
                   vy' = (if y < 1 \<or> y > gridSize_y - 2 then 0 else vy);
                   vz' = (if z < 1 \<or> z > gridSize_z - 2 then 0 else vz)
               in cellBufferFloat(instanceIndex := Vec4 vx' vy' vz' mass))))"

subsection \<open>\<^verbatim>\<open>g2pKernel\<close> (lines 851-1017)\<close>

text \<open>The gather loop of lines 875-907, on the pair of \<^verbatim>\<open>B\<close> and \<^verbatim>\<open>particleVelocity\<close>.\<close>

definition g2pCell ::
  "uniforms \<Rightarrow> vec3 \<Rightarrow> cellBufferFloat \<Rightarrow> nat \<times> nat \<times> nat \<Rightarrow> mat3 \<times> vec3 \<Rightarrow>
     kernel_error + mat3 \<times> vec3" where
  "g2pCell u position cellBufferFloat g acc =
     (let weight = weightOf position g;
          cellDist = cellDistOf position g;
          cellPtr = cellPtrOf position g
      in case cellElement cellPtr of
           Inl e \<Rightarrow> Inl e
         | Inr c \<Rightarrow>
             (let cv = cellBufferFloat c;
                  weightedVelocity = vscale (Vec3 (vec4_x cv) (vec4_y cv) (vec4_z cv)) weight;
                  term = Mat3 (vscale weightedVelocity (vec_x cellDist))
                              (vscale weightedVelocity (vec_y cellDist))
                              (vscale weightedVelocity (vec_z cellDist))
              in Inr (madd (fst acc) term,
                      vadd (snd acc) (vscale weightedVelocity (fluidStrengthUniform u)))))"

definition selectTarget :: "int \<Rightarrow> vec3 \<Rightarrow> vec3 \<Rightarrow> vec3 \<Rightarrow> vec3" where
  "selectTarget shapeIndex cubeTarget coneTarget monkeyTarget =
     (if shapeIndex = 0 then cubeTarget else if shapeIndex = 1 then coneTarget else monkeyTarget)"

text \<open>
  Lines 911-999: the forces applied to the gathered velocity, in the order of the source. The
  result is the velocity that integrates the position.
\<close>

definition g2pForces :: "uniforms \<Rightarrow> targets \<Rightarrow> nat \<Rightarrow> vec3 \<Rightarrow> vec3 \<Rightarrow> vec3" where
  "g2pForces u tg instanceIndex position gathered =
     (let v1 = vadd gathered (vscale (gravityUniform u) (dtUniform u));
          v2 = vdiv v1 gridSizeUniform;
          cubeTarget = cubeTargetBuffer tg instanceIndex;
          coneTarget = coneTargetBuffer tg instanceIndex;
          monkeyTarget = monkeyTargetBuffer tg instanceIndex;
          currentTarget = selectTarget (currentShapeIndexUniform u) cubeTarget coneTarget monkeyTarget;
          nextTarget = selectTarget (nextShapeIndexUniform u) cubeTarget coneTarget monkeyTarget;
          targetPos = vadd currentTarget
                        (vscale (vsub nextTarget currentTarget) (morphProgressUniform u));
          toTarget = vsub targetPos position;
          springStrength = 200;
          springForce = vscale toTarget springStrength;
          v3 = vadd v2 (vscale springForce (dtUniform u));
          damping = 85 / 100;
          v4 = vscale v3 damping;
          pos = vscale position (turbulenceFreqUniform u);
          t = timeUniform u;
          wave1X = sin (vec_y pos + t) * cos (vec_z pos + t * (13 / 10));
          wave1Y = sin (vec_z pos + t * (11 / 10)) * cos (vec_x pos + t * (9 / 10));
          wave1Z = sin (vec_x pos + t * (8 / 10)) * cos (vec_y pos + t * (12 / 10));
          wave1 = vscale (Vec3 wave1X wave1Y wave1Z) (turbulenceStrengthUniform u);
          v5 = vadd v4 (vscale wave1 (dtUniform u));
          w = timeUniform u;
          pos2 = vadd (vscale position (wave2FreqUniform u)) (Vec3 0 (w * (1 / 2)) 0);
          noiseScale = 10;
          n1 = sin (vec_x pos2 * noiseScale)
               * cos (vec_y pos2 * (noiseScale * (11 / 10)))
               * sin (vec_z pos2 * (noiseScale * (9 / 10)));
          n2 = sin (vec_y pos2 * (noiseScale * (12 / 10)))
               * cos (vec_z pos2 * (noiseScale * (8 / 10)))
               * sin (vec_x pos2 * (noiseScale * (13 / 10)));
          n3 = sin (vec_z pos2 * (noiseScale * (95 / 100)))
               * cos (vec_x pos2 * (noiseScale * (115 / 100)))
               * sin (vec_y pos2 * (noiseScale * (105 / 100)));
          curlX = n3 - n2;
          curlY = n1 - n3 + 3 / 10;
          curlZ = n2 - n1;
          smokeFlow = vscale (vnormalize (Vec3 curlX curlY curlZ)) (wave2StrengthUniform u);
          morphTurbulence = 1 - morphProgressUniform u;
          v6 = vadd v5 (vscale (vscale smokeFlow (dtUniform u)) morphTurbulence);
          dist = vlength (vcross (mouseRayDirectionUniform u)
                                 (vsub position (mouseRayOriginUniform u)));
          force = (max (1 - dist * 4) 0) ^ 3
      in vadd v6 (vscale (mouseForceUniform u) force))"

text \<open>Lines 1001-1009: integration of the position and the clamp to the domain.\<close>

definition g2pIntegrate :: "uniforms \<Rightarrow> vec3 \<Rightarrow> vec3 \<Rightarrow> vec3" where
  "g2pIntegrate u position v =
     vclamp (vadd position (vscale v (dtUniform u)))
       (vdiv (vsplat (1 / 2)) gridSizeUniform)
       (vdiv (vsub gridSizeUniform (vsplat 1)) gridSizeUniform)"

definition g2pKernel ::
  "uniforms \<Rightarrow> targets \<Rightarrow> cellBufferFloat \<Rightarrow> nat \<Rightarrow> particleBuffer \<Rightarrow>
     kernel_error + particleBuffer" where
  "g2pKernel u tg cellBufferFloat instanceIndex particleBuffer =
     (if instanceIndex \<ge> particleCountUniform u then Inr particleBuffer
      else
        (let p = particleBuffer instanceIndex;
             position = particlePosition p;
             zero = Vec3 0 0 0
         in case forE stencilOffsets (g2pCell u position cellBufferFloat)
                   (Mat3 zero zero zero, zero) of
              Inl e \<Rightarrow> Inl e
            | Inr (B, gathered) \<Rightarrow>
                (let v = g2pForces u tg instanceIndex position gathered
                 in Inr (particleBuffer(instanceIndex :=
                      p\<lparr>particleC := mscale (mscale B 4) (fluidStrengthUniform u),
                        particlePosition := g2pIntegrate u position v,
                        particleVelocity := vmul v gridSizeUniform\<rparr>)))))"

text \<open>
  A read of the float cell buffer outside its range does not end the invocation on the device:
  the read yields some value and the kernel goes on to the integration and the clamp. The
  following is \<^verbatim>\<open>g2pKernel\<close> with that value supplied by \<open>outside\<close>, one value for the
  instance and the stencil offset of each such read, and \<open>computeRobust\<close> is the dispatch of a
  kernel that cannot fail. Where \<^verbatim>\<open>g2pKernel\<close> above returns a particle buffer, this one
  returns the same buffer.
\<close>

definition g2pCellRobust ::
  "uniforms \<Rightarrow> vec3 \<Rightarrow> cellBufferFloat \<Rightarrow> (nat \<times> nat \<times> nat \<Rightarrow> vec4) \<Rightarrow> nat \<times> nat \<times> nat \<Rightarrow>
     mat3 \<times> vec3 \<Rightarrow> mat3 \<times> vec3" where
  "g2pCellRobust u position cellBufferFloat outside g acc =
     (let weight = weightOf position g;
          cellDist = cellDistOf position g;
          cellPtr = cellPtrOf position g;
          cv = (case cellElement cellPtr of Inl e \<Rightarrow> outside g | Inr c \<Rightarrow> cellBufferFloat c);
          weightedVelocity = vscale (Vec3 (vec4_x cv) (vec4_y cv) (vec4_z cv)) weight;
          term = Mat3 (vscale weightedVelocity (vec_x cellDist))
                      (vscale weightedVelocity (vec_y cellDist))
                      (vscale weightedVelocity (vec_z cellDist))
      in (madd (fst acc) term,
          vadd (snd acc) (vscale weightedVelocity (fluidStrengthUniform u))))"

definition g2pKernelRobust ::
  "uniforms \<Rightarrow> targets \<Rightarrow> cellBufferFloat \<Rightarrow> (nat \<Rightarrow> nat \<times> nat \<times> nat \<Rightarrow> vec4) \<Rightarrow> nat \<Rightarrow>
     particleBuffer \<Rightarrow> particleBuffer" where
  "g2pKernelRobust u tg cellBufferFloat outside instanceIndex particleBuffer =
     (if instanceIndex \<ge> particleCountUniform u then particleBuffer
      else
        (let p = particleBuffer instanceIndex;
             position = particlePosition p;
             zero = Vec3 0 0 0;
             (B, gathered) =
               fold (g2pCellRobust u position cellBufferFloat (outside instanceIndex))
                 stencilOffsets (Mat3 zero zero zero, zero);
             v = g2pForces u tg instanceIndex position gathered
         in particleBuffer(instanceIndex :=
              p\<lparr>particleC := mscale (mscale B 4) (fluidStrengthUniform u),
                particlePosition := g2pIntegrate u position v,
                particleVelocity := vmul v gridSizeUniform\<rparr>)))"

definition computeRobust :: "(nat \<Rightarrow> 's \<Rightarrow> 's) \<Rightarrow> nat list \<Rightarrow> 's \<Rightarrow> 's" where
  "computeRobust k instances s = fold k instances s"

section \<open>Notions used in the statements\<close>

text \<open>The bounds of the clamp in \<^verbatim>\<open>g2pKernel\<close>, per axis.\<close>

definition clampLow :: real where
  "clampLow = (1 / 2) / real_of_int gridSize1d"

definition clampHigh :: real where
  "clampHigh = (real_of_int gridSize1d - 1) / real_of_int gridSize1d"

definition withinClamp :: "vec3 \<Rightarrow> bool" where
  "withinClamp position \<longleftrightarrow>
     clampLow \<le> vec_x position \<and> vec_x position \<le> clampHigh \<and>
     clampLow \<le> vec_y position \<and> vec_y position \<le> clampHigh \<and>
     clampLow \<le> vec_z position \<and> vec_z position \<le> clampHigh"

text \<open>
  The lattice coordinate a stencil offset reaches on one axis, as an integer: the truncated
  and clamped grid coordinate (the position times the 64 cells of an axis), minus one, plus
  the offset.
\<close>

definition cellCoord :: "real \<Rightarrow> nat \<Rightarrow> int" where
  "cellCoord a g = max (- 2147483648) (min 2147483647 (truncateReal (a * 64))) - 1 + int g"

text \<open>The quadratic B-spline weight of a stencil offset on one axis, from the coordinate.\<close>

definition axisWeight :: "real \<Rightarrow> nat \<Rightarrow> real" where
  "axisWeight a g =
     (let d = frac (a * 64) - 1 / 2
      in if g = 0 then (1 / 2 - d) * (1 / 2) * (1 / 2 - d)
         else if g = 1 then 3 / 4 - d * d
         else (1 / 2 + d) * (1 / 2) * (1 / 2 + d))"

text \<open>A stencil whose 27 cell pointers all index the cell buffers.\<close>

definition inGrid :: "i32 \<Rightarrow> bool" where
  "inGrid cellPtr \<longleftrightarrow> 0 \<le> sint cellPtr \<and> sint cellPtr < cellCount"

definition stencilInGrid :: "vec3 \<Rightarrow> bool" where
  "stencilInGrid position \<longleftrightarrow> list_all (\<lambda>g. inGrid (cellPtrOf position g)) stencilOffsets"

text \<open>
  What one loop iteration of \<^verbatim>\<open>p2g1Kernel\<close> and of \<^verbatim>\<open>p2g2Kernel\<close> adds, as a pair of the cell
  index and the four encoded addends, and the effect of a list of such deposits on the cell
  buffer: every field of every cell grows by the sum of the addends deposited there.
\<close>

definition velContribOf :: "particle \<Rightarrow> nat \<times> nat \<times> nat \<Rightarrow> vec3" where
  "velContribOf p g =
     vscale (vadd (particleVelocity p) (mat_vec (particleC p) (cellDistOf (particlePosition p) g)))
       (weightOf (particlePosition p) g)"

definition p2g1Deposit :: "particle \<Rightarrow> nat \<times> nat \<times> nat \<Rightarrow> nat \<times> cell" where
  "p2g1Deposit p g =
     (nat (sint (cellPtrOf (particlePosition p) g)),
      \<lparr>cell_x = encodeFixedPoint (vec_x (velContribOf p g)),
       cell_y = encodeFixedPoint (vec_y (velContribOf p g)),
       cell_z = encodeFixedPoint (vec_z (velContribOf p g)),
       cell_mass = encodeFixedPoint (weightOf (particlePosition p) g)\<rparr>)"

definition momentumOf :: "vec3 \<Rightarrow> mat3 \<Rightarrow> nat \<times> nat \<times> nat \<Rightarrow> vec3" where
  "momentumOf position eq16Term0 g =
     mat_vec (mscale eq16Term0 (weightOf position g)) (cellDistOf position g)"

definition p2g2Deposit :: "vec3 \<Rightarrow> mat3 \<Rightarrow> nat \<times> nat \<times> nat \<Rightarrow> nat \<times> cell" where
  "p2g2Deposit position eq16Term0 g =
     (nat (sint (cellPtrOf position g)),
      \<lparr>cell_x = encodeFixedPoint (vec_x (momentumOf position eq16Term0 g)),
       cell_y = encodeFixedPoint (vec_y (momentumOf position eq16Term0 g)),
       cell_z = encodeFixedPoint (vec_z (momentumOf position eq16Term0 g)),
       cell_mass = 0\<rparr>)"

definition fieldSum :: "(cell \<Rightarrow> i32) \<Rightarrow> (nat \<times> cell) list \<Rightarrow> nat \<Rightarrow> i32" where
  "fieldSum f ds c = sum_list (map (\<lambda>d. if fst d = c then f (snd d) else 0) ds)"

definition scatter :: "(nat \<times> cell) list \<Rightarrow> cellBuffer \<Rightarrow> cellBuffer" where
  "scatter ds cellBuffer =
     (\<lambda>c. \<lparr>cell_x = cell_x (cellBuffer c) + fieldSum cell_x ds c,
           cell_y = cell_y (cellBuffer c) + fieldSum cell_y ds c,
           cell_z = cell_z (cellBuffer c) + fieldSum cell_z ds c,
           cell_mass = cell_mass (cellBuffer c) + fieldSum cell_mass ds c\<rparr>)"

text \<open>The deposits of a whole \<^verbatim>\<open>p2g1Kernel\<close> dispatch, in the order of the instances.\<close>

definition p2g1Deposits :: "uniforms \<Rightarrow> particleBuffer \<Rightarrow> nat list \<Rightarrow> (nat \<times> cell) list" where
  "p2g1Deposits u particleBuffer instances =
     concat (map (\<lambda>i. if i < particleCountUniform u
                       then map (p2g1Deposit (particleBuffer i)) stencilOffsets else [])
       instances)"

text \<open>
  The mass deposited in a cell as an unbounded integer, the number of active particles of a
  dispatch, and a cell buffer whose mass accumulators are zero on the grid.
\<close>

definition exactMass :: "(nat \<times> cell) list \<Rightarrow> nat \<Rightarrow> int" where
  "exactMass ds c = sum_list (map (\<lambda>d. if fst d = c then sint (cell_mass (snd d)) else 0) ds)"

definition activeCount :: "uniforms \<Rightarrow> nat list \<Rightarrow> nat" where
  "activeCount u instances = length (filter (\<lambda>i. i < particleCountUniform u) instances)"

text \<open>The integer mass one particle deposits over its stencil.\<close>

definition particleMass :: "particle \<Rightarrow> int" where
  "particleMass p =
     sum_list (map (\<lambda>g. sint (encodeFixedPoint (weightOf (particlePosition p) g))) stencilOffsets)"

definition massCleared :: "cellBuffer \<Rightarrow> bool" where
  "massCleared cellBuffer \<longleftrightarrow> (\<forall>c. int c < cellCount \<longrightarrow> cell_mass (cellBuffer c) = 0)"

definition totalMass :: "cellBuffer \<Rightarrow> real" where
  "totalMass cellBuffer =
     sum_list (map (\<lambda>c. decodeFixedPoint (cell_mass (cellBuffer c))) [0..<nat cellCount])"

text \<open>The density the first loop of \<^verbatim>\<open>p2g2Kernel\<close> accumulates, as a sum over the stencil.\<close>

definition densitySum :: "vec3 \<Rightarrow> cellBuffer \<Rightarrow> (nat \<times> nat \<times> nat) list \<Rightarrow> real" where
  "densitySum position cellBuffer gs =
     sum_list (map (\<lambda>g. decodeFixedPoint (cell_mass (cellBuffer (nat (sint (cellPtrOf position g)))))
                          * weightOf position g) gs)"

text \<open>
  The deposits of a whole \<^verbatim>\<open>p2g2Kernel\<close> dispatch on a cell buffer, and the condition under
  which the invocation of one instance runs without an error on it.
\<close>

definition p2g2Deposits ::
  "uniforms \<Rightarrow> particleBuffer \<Rightarrow> cellBuffer \<Rightarrow> nat list \<Rightarrow> (nat \<times> cell) list" where
  "p2g2Deposits u particleBuffer cellBuffer instances =
     concat (map (\<lambda>i. if i < particleCountUniform u
                       then map (p2g2Deposit (particlePosition (particleBuffer i))
                                  (eq16Term0Of u (particleC (particleBuffer i))
                                     (densitySum (particlePosition (particleBuffer i)) cellBuffer
                                        stencilOffsets)))
                              stencilOffsets
                       else [])
       instances)"

definition p2g2Ready :: "uniforms \<Rightarrow> particleBuffer \<Rightarrow> cellBuffer \<Rightarrow> nat \<Rightarrow> bool" where
  "p2g2Ready u particleBuffer cellBuffer i \<longleftrightarrow>
     (i < particleCountUniform u \<longrightarrow>
        stencilInGrid (particlePosition (particleBuffer i)) \<and>
        densitySum (particlePosition (particleBuffer i)) cellBuffer stencilOffsets \<noteq> 0)"

text \<open>
  The density a particle would read if the cells held nothing but its own deposits.
\<close>

definition ownDensity :: "vec3 \<Rightarrow> real" where
  "ownDensity position =
     sum_list (map (\<lambda>g. decodeFixedPoint (encodeFixedPoint (weightOf position g))
                          * weightOf position g) stencilOffsets)"

text \<open>The accumulator values a dispatch leaves, when it runs without an error.\<close>

definition finalAccumulators :: "kernel_error + cellBuffer \<Rightarrow> cellBuffer option" where
  "finalAccumulators r = (case r of Inl e \<Rightarrow> None | Inr cellBuffer \<Rightarrow> Some cellBuffer)"

section \<open>Sample inputs\<close>

text \<open>
  The uniforms as \<^verbatim>\<open>setupUniforms\<close> creates them from \<^verbatim>\<open>params\<close> (lines 316-328 and 608-636),
  a cell buffer of zeros, and a particle buffer whose particles all rest at the centre of the
  domain.
\<close>

definition setupUniforms :: uniforms where
  "setupUniforms =
     \<lparr>particleCountUniform = 60000,
      dynamicViscosityUniform = 1 / 2,
      dtUniform = 1 / 60,
      gravityUniform = Vec3 0 0 0,
      mouseRayOriginUniform = Vec3 0 0 0,
      mouseRayDirectionUniform = Vec3 0 0 0,
      mouseForceUniform = Vec3 0 0 0,
      timeUniform = 0,
      turbulenceStrengthUniform = 1,
      turbulenceFreqUniform = 40,
      wave2StrengthUniform = 35,
      morphProgressUniform = 0,
      currentShapeIndexUniform = 0,
      nextShapeIndexUniform = 1,
      wave2FreqUniform = 3 / 4,
      fluidStrengthUniform = 1\<rparr>"

definition zeroCells :: cellBuffer where
  "zeroCells = (\<lambda>c. \<lparr>cell_x = 0, cell_y = 0, cell_z = 0, cell_mass = 0\<rparr>)"

definition zeroFloatCells :: cellBufferFloat where
  "zeroFloatCells = (\<lambda>c. Vec4 0 0 0 0)"

definition centredParticles :: particleBuffer where
  "centredParticles =
     (\<lambda>i. \<lparr>particlePosition = Vec3 (1 / 2) (1 / 2) (1 / 2),
           particleVelocity = Vec3 0 0 0,
           particleC = Mat3 (Vec3 0 0 0) (Vec3 0 0 0) (Vec3 0 0 0),
           targetPosition = Vec3 (1 / 2) (1 / 2) (1 / 2)\<rparr>)"

text \<open>
  A cell buffer whose cells all hold momentum \<open>(2, -1, 0.5)\<close> and mass 1; the uniforms once
  the first morph has settled on shape 1; and a particle half a cell below the upper clamp
  bound of the x axis whose shape targets lie on the wall \<open>x = 1\<close>.
\<close>

definition sampleCells :: cellBuffer where
  "sampleCells =
     (\<lambda>c. \<lparr>cell_x = 20000000, cell_y = - 10000000, cell_z = 5000000, cell_mass = 10000000\<rparr>)"

definition settledUniforms :: uniforms where
  "settledUniforms = setupUniforms\<lparr>morphProgressUniform := 1, currentShapeIndexUniform := 1\<rparr>"

definition wallTargets :: targets where
  "wallTargets =
     \<lparr>cubeTargetBuffer = (\<lambda>i. Vec3 1 (1 / 2) (1 / 2)),
      coneTargetBuffer = (\<lambda>i. Vec3 1 (1 / 2) (1 / 2)),
      monkeyTargetBuffer = (\<lambda>i. Vec3 1 (1 / 2) (1 / 2))\<rparr>"

definition wallParticles :: particleBuffer where
  "wallParticles =
     (\<lambda>i. \<lparr>particlePosition = Vec3 (125 / 128) (1 / 2) (1 / 2),
           particleVelocity = Vec3 0 0 0,
           particleC = Mat3 (Vec3 0 0 0) (Vec3 0 0 0) (Vec3 0 0 0),
           targetPosition = Vec3 1 (1 / 2) (1 / 2)\<rparr>)"

text \<open>
  Particle buffers whose particles all sit on the lower, respectively the upper, bound of the
  clamp of \<^verbatim>\<open>g2pKernel\<close> on every axis.
\<close>

definition lowerBoundParticles :: particleBuffer where
  "lowerBoundParticles =
     (\<lambda>i. \<lparr>particlePosition = Vec3 (1 / 128) (1 / 128) (1 / 128),
           particleVelocity = Vec3 0 0 0,
           particleC = Mat3 (Vec3 0 0 0) (Vec3 0 0 0) (Vec3 0 0 0),
           targetPosition = Vec3 0 0 0\<rparr>)"

definition upperBoundParticles :: particleBuffer where
  "upperBoundParticles =
     (\<lambda>i. \<lparr>particlePosition = Vec3 (63 / 64) (63 / 64) (63 / 64),
           particleVelocity = Vec3 0 0 0,
           particleC = Mat3 (Vec3 0 0 0) (Vec3 0 0 0) (Vec3 0 0 0),
           targetPosition = Vec3 1 1 1\<rparr>)"

text \<open>Values far from any cell velocity, for the reads outside the float cell buffer.\<close>

definition sampleOutside :: "nat \<Rightarrow> nat \<times> nat \<times> nat \<Rightarrow> vec4" where
  "sampleOutside = (\<lambda>i g. Vec4 1000 1000 1000 1)"

section \<open>Properties of the rounding\<close>

lemma abs_leD: "\<bar>a - b\<bar> \<le> c \<Longrightarrow> a \<le> b + c \<and> b \<le> a + (c::real)"
  by linarith

lemma abs_leI: "a \<le> b + c \<Longrightarrow> b \<le> a + c \<Longrightarrow> \<bar>a - b\<bar> \<le> (c::real)"
  by linarith

lemma roundTiesToEven_error: "\<bar>real_of_int (roundTiesToEven y) - y\<bar> \<le> 1 / 2"
  unfolding roundTiesToEven_def Let_def by (auto; linarith)

lemma roundTiesToEven_le: "y \<le> real_of_int n \<Longrightarrow> roundTiesToEven y \<le> n"
  unfolding roundTiesToEven_def Let_def by (auto; linarith)

lemma roundTiesToEven_ge: "real_of_int n \<le> y \<Longrightarrow> n \<le> roundTiesToEven y"
  unfolding roundTiesToEven_def Let_def by (auto; linarith)

lemma roundTiesToEven_of_int [simp]: "roundTiesToEven (real_of_int n) = n"
  unfolding roundTiesToEven_def Let_def by simp

lemma binadeFrom_range: "e \<le> binadeFrom n e a \<and> binadeFrom n e a \<le> e + int n"
  by (induction n e a rule: binadeFrom.induct) auto

lemma binadeFrom_lower: "2 powi e \<le> a \<Longrightarrow> 2 powi (binadeFrom n e a) \<le> a"
  by (induction n e a rule: binadeFrom.induct) auto

lemma binadeFrom_upper: "binadeFrom n e a < e + int n \<Longrightarrow> a < 2 powi (binadeFrom n e a + 1)"
  by (induction n e a rule: binadeFrom.induct) (auto split: if_splits)

lemma binadeFrom_small: "a < 2 powi (e + 1) \<Longrightarrow> binadeFrom n e a = e"
  by (cases n) auto

lemma powi2_less_cancel: "(2::real) powi a < 2 powi b \<Longrightarrow> a < b"
  by (rule ccontr) (use power_int_increasing [of b a "2::real"] in auto)

lemma binadeFrom_eqI:
  assumes "2 powi e \<le> a" "a < 2 powi (e + 1)" "e0 \<le> e" "e \<le> e0 + int n"
  shows "binadeFrom n e0 a = e"
proof -
  let ?b = "binadeFrom n e0 a"
  have "(2::real) powi e0 \<le> 2 powi e"
    using assms(3) by (intro power_int_increasing) auto
  then have lo: "2 powi ?b \<le> a"
    using assms(1) by (intro binadeFrom_lower) linarith
  have "?b \<le> e"
    using lo assms(2) powi2_less_cancel [of ?b "e + 1"] by linarith
  moreover have "e \<le> ?b"
  proof (cases "?b < e0 + int n")
    case True
    then have "a < 2 powi (?b + 1)" by (rule binadeFrom_upper)
    then show ?thesis
      using assms(1) powi2_less_cancel [of e "?b + 1"] by linarith
  next
    case False
    then show ?thesis using assms(4) by linarith
  qed
  ultimately show ?thesis by linarith
qed


lemma powi2_le_cancel: "(2::real) powi a \<le> 2 powi b \<Longrightarrow> a \<le> b"
  by (rule ccontr) (use power_int_strict_increasing [of b a "2::real"] in auto)

lemma roundBinary_grid:
  "roundBinary p emin nb x =
     of_int (roundTiesToEven (x / 2 powi (binadeFrom nb emin \<bar>x\<bar> - int p + 1)))
       * 2 powi (binadeFrom nb emin \<bar>x\<bar> - int p + 1)"
  by (simp add: roundBinary_def Let_def)

lemma roundBinary_error:
  "\<bar>roundBinary p emin nb x - x\<bar> \<le> 2 powi (binadeFrom nb emin \<bar>x\<bar> - int p)"
proof -
  define q :: real where "q = 2 powi (binadeFrom nb emin \<bar>x\<bar> - int p + 1)"
  have q: "0 < q" by (simp add: q_def)
  have "\<bar>real_of_int (roundTiesToEven (x / q)) - x / q\<bar> \<le> 1 / 2"
    by (rule roundTiesToEven_error)
  then have "\<bar>real_of_int (roundTiesToEven (x / q)) - x / q\<bar> * q \<le> 1 / 2 * q"
    using q by (intro mult_right_mono) simp_all
  moreover have "\<bar>real_of_int (roundTiesToEven (x / q)) - x / q\<bar> * q =
      \<bar>real_of_int (roundTiesToEven (x / q)) * q - x\<bar>"
  proof -
    have "(real_of_int (roundTiesToEven (x / q)) - x / q) * q =
        real_of_int (roundTiesToEven (x / q)) * q - x"
      using q by (simp add: left_diff_distrib)
    then have "\<bar>real_of_int (roundTiesToEven (x / q)) * q - x\<bar> =
        \<bar>real_of_int (roundTiesToEven (x / q)) - x / q\<bar> * \<bar>q\<bar>"
      by (simp only: abs_mult [symmetric])
    then show ?thesis using q by simp
  qed
  moreover have "1 / 2 * q = 2 powi (binadeFrom nb emin \<bar>x\<bar> - int p)"
    unfolding q_def by (simp add: power_int_add)
  ultimately show ?thesis
    unfolding roundBinary_grid q_def by simp
qed

lemma roundBinary_error_normal:
  assumes "2 powi emin \<le> \<bar>x\<bar>"
  shows "\<bar>roundBinary p emin nb x - x\<bar> \<le> \<bar>x\<bar> / 2 ^ p"
proof -
  have "(2::real) powi (binadeFrom nb emin \<bar>x\<bar> - int p) =
      2 powi (binadeFrom nb emin \<bar>x\<bar>) / 2 ^ p"
    by (simp add: power_int_diff)
  also have "\<dots> \<le> \<bar>x\<bar> / 2 ^ p"
    using binadeFrom_lower [OF assms, of nb] by (intro divide_right_mono) simp_all
  finally show ?thesis
    using roundBinary_error [of p emin nb x] by linarith
qed

lemma roundBinary_error_small:
  assumes "\<bar>x\<bar> < 2 powi (emin + 1)"
  shows "\<bar>roundBinary p emin nb x - x\<bar> \<le> 2 powi (emin - int p)"
  using roundBinary_error [of p emin nb x] binadeFrom_small [OF assms, of nb] by simp

lemma binadeFrom_le:
  assumes "a \<le> 2 powi k" "emin \<le> k"
  shows "binadeFrom nb emin a \<le> k"
proof (cases "2 powi emin \<le> a")
  case True
  then have "2 powi (binadeFrom nb emin a) \<le> a" by (rule binadeFrom_lower)
  then have "(2::real) powi (binadeFrom nb emin a) \<le> 2 powi k"
    using assms(1) by linarith
  then show ?thesis by (rule powi2_le_cancel)
next
  case False
  have "(2::real) powi emin \<le> 2 powi (emin + 1)"
    by (intro power_int_increasing) auto
  then have "a < 2 powi (emin + 1)" using False by linarith
  then show ?thesis
    using assms(2) by (simp add: binadeFrom_small)
qed

lemma roundBinary_abs_le:
  assumes "\<bar>x\<bar> \<le> 2 powi k" "emin \<le> k" "1 \<le> p"
  shows "\<bar>roundBinary p emin nb x\<bar> \<le> 2 powi k"
proof -
  define e where "e = binadeFrom nb emin \<bar>x\<bar>"
  define q :: real where "q = 2 powi (e - int p + 1)"
  define N :: int where "N = 2 ^ nat (k - e + int p - 1)"
  have q: "0 < q" by (simp add: q_def)
  have ek: "e \<le> k"
    unfolding e_def using assms(1,2) by (rule binadeFrom_le)
  have "real_of_int N = 2 powi (k - e + int p - 1)"
    using ek assms(3) by (simp add: N_def power_int_nonneg_exp)
  then have N: "real_of_int N * q = 2 powi k"
    unfolding q_def by (simp add: power_int_add [symmetric])
  have "- (real_of_int N * q) \<le> x" "x \<le> real_of_int N * q"
    using assms(1) unfolding N by linarith+
  then have "real_of_int (- N) \<le> x / q" "x / q \<le> real_of_int N"
    using q by (simp_all add: field_simps)
  then have "- N \<le> roundTiesToEven (x / q)" "roundTiesToEven (x / q) \<le> N"
    by (auto intro: roundTiesToEven_ge roundTiesToEven_le)
  then have "\<bar>real_of_int (roundTiesToEven (x / q))\<bar> \<le> real_of_int N"
    by linarith
  then have "\<bar>real_of_int (roundTiesToEven (x / q))\<bar> * q \<le> real_of_int N * q"
    using q by (intro mult_right_mono) simp_all
  then show ?thesis
    unfolding roundBinary_grid e_def [symmetric] q_def [symmetric] N
    using q by (simp add: abs_mult)
qed

lemma roundBinary_nonneg:
  assumes "0 \<le> x"
  shows "0 \<le> roundBinary p emin nb x"
proof -
  have "real_of_int 0 \<le> x / 2 powi (binadeFrom nb emin \<bar>x\<bar> - int p + 1)"
    using assms by simp
  then have "0 \<le> roundTiesToEven (x / 2 powi (binadeFrom nb emin \<bar>x\<bar> - int p + 1))"
    by (rule roundTiesToEven_ge)
  then show ?thesis
    unfolding roundBinary_grid by simp
qed

lemma roundBinary_zero [simp]: "roundBinary p emin nb 0 = 0"
  using roundTiesToEven_of_int [of 0] by (simp add: roundBinary_def Let_def)

lemma roundBinary_exact:
  assumes "x = real_of_int m * 2 powi j"
    and "binadeFrom nb emin \<bar>x\<bar> - int p + 1 \<le> j"
  shows "roundBinary p emin nb x = x"
proof -
  define t where "t = binadeFrom nb emin \<bar>x\<bar> - int p + 1"
  have "x / 2 powi t = real_of_int m * 2 powi (j - t)"
    unfolding assms(1) by (simp add: power_int_diff)
  also have "\<dots> = real_of_int (m * 2 ^ nat (j - t))"
    using assms(2) by (simp add: t_def power_int_nonneg_exp)
  finally have "real_of_int (roundTiesToEven (x / 2 powi t)) * 2 powi t = x / 2 powi t * 2 powi t"
    by (simp del: of_int_mult of_int_power)
  then show ?thesis
    unfolding roundBinary_grid t_def [symmetric] by simp
qed

lemma roundBinary_eval:
  assumes "2 powi e \<le> \<bar>x\<bar>" "\<bar>x\<bar> < 2 powi (e + 1)" "emin \<le> e" "e \<le> emin + int nb"
  shows "roundBinary p emin nb x =
     of_int (roundTiesToEven (x / 2 powi (e - int p + 1))) * 2 powi (e - int p + 1)"
  unfolding roundBinary_grid binadeFrom_eqI [OF assms] ..

subsection \<open>binary64\<close>

lemma f64_min_normal: "(2::real) powi (- 1022) \<le> 1 / 2 ^ 64"
proof -
  have "(2::real) powi (- 1022) \<le> 2 powi (- 64)"
    by (intro power_int_increasing) auto
  then show ?thesis by (simp add: power_int_minus_divide)
qed

lemma roundF64_error:
  assumes "1 / 2 ^ 64 \<le> \<bar>x\<bar>"
  shows "\<bar>roundF64 x - x\<bar> \<le> \<bar>x\<bar> / 2 ^ 53"
  unfolding roundF64_def
  using assms f64_min_normal by (intro roundBinary_error_normal) linarith

lemma roundF64_nonneg: "0 \<le> x \<Longrightarrow> 0 \<le> roundF64 x"
  unfolding roundF64_def by (rule roundBinary_nonneg)

lemma roundF64_zero [simp]: "roundF64 0 = 0"
  by (simp add: roundF64_def)

lemma roundF64_eval:
  assumes "2 powi e \<le> \<bar>x\<bar>" "\<bar>x\<bar> < 2 powi (e + 1)" "- 1022 \<le> e" "e \<le> 1023"
  shows "roundF64 x = of_int (roundTiesToEven (x / 2 powi (e - 52))) * 2 powi (e - 52)"
  unfolding roundF64_def using roundBinary_eval [OF assms(1,2), of "- 1022" 2045 53] assms(3,4)
  by simp

subsection \<open>binary32\<close>

lemma f32_min_normal: "(2::real) powi (- 126) \<le> 1 / 2 ^ 64"
proof -
  have "(2::real) powi (- 126) \<le> 2 powi (- 64)"
    by (intro power_int_increasing) auto
  then show ?thesis by (simp add: power_int_minus_divide)
qed

lemma roundF32_error:
  assumes "1 / 2 ^ 64 \<le> \<bar>x\<bar>"
  shows "\<bar>roundF32 x - x\<bar> \<le> \<bar>x\<bar> / 2 ^ 24"
  unfolding roundF32_def
  using assms f32_min_normal by (intro roundBinary_error_normal) linarith

lemma roundF32_zero [simp]: "roundF32 0 = 0"
  by (simp add: roundF32_def)

lemma roundF32_abs_le:
  assumes "\<bar>x\<bar> \<le> 2 powi k" "- 126 \<le> k"
  shows "\<bar>roundF32 x\<bar> \<le> 2 powi k"
  unfolding roundF32_def using assms by (intro roundBinary_abs_le) simp_all

lemma roundF32_eval:
  assumes "2 powi e \<le> \<bar>x\<bar>" "\<bar>x\<bar> < 2 powi (e + 1)" "- 126 \<le> e" "e \<le> 127"
  shows "roundF32 x = of_int (roundTiesToEven (x / 2 powi (e - 23))) * 2 powi (e - 23)"
  unfolding roundF32_def using roundBinary_eval [OF assms(1,2), of "- 126" 253 24] assms(3,4)
  by simp

section \<open>Properties of the morph state machine\<close>

text \<open>The three rounded constants, as the doubles they are.\<close>

lemma morphDuration_value: "morphDuration = 5404319552844595 / 18014398509481984"
  unfolding morphDuration_def
  by (subst roundF64_eval [of "- 2"]) (simp_all add: roundTiesToEven_def power_int_minus_divide)

lemma frameDelta_low_value: "roundF64 (1 / 100000) = 5902958103587057 / 590295810358705651712"
  by (subst roundF64_eval [of "- 17"]) (simp_all add: roundTiesToEven_def power_int_minus_divide)

lemma frameDelta_high_value: "roundF64 (1 / 60) = 4803839602528529 / 288230376151711744"
  by (subst roundF64_eval [of "- 6"]) (simp_all add: roundTiesToEven_def power_int_minus_divide)

lemma frameDelta_bounds: "1 / 100001 \<le> frameDelta d" "frameDelta d \<le> 1 / 59"
  by (simp_all add: frameDelta_def clampJS_def frameDelta_low_value frameDelta_high_value)

lemma frameDelta_pos: "0 < frameDelta d"
  using frameDelta_bounds(1) [of d] by simp

lemma frameDelta_id: "1 / 99999 \<le> d \<Longrightarrow> d \<le> 1 / 61 \<Longrightarrow> frameDelta d = d"
  by (simp add: frameDelta_def clampJS_def frameDelta_low_value frameDelta_high_value)

lemma morphDuration_bounds: "29 / 100 \<le> morphDuration" "morphDuration \<le> 3 / 10"
  by (simp_all add: morphDuration_value)

lemma fullRotation_bounds: "6 < fullRotation" "fullRotation < 7"
  by (simp_all add: fullRotation_def mathPI_def)

lemma simulatedTime_nonneg: "0 \<le> simulatedTime ds"
  unfolding simulatedTime_def
  by (induction ds) (auto intro: add_nonneg_nonneg less_imp_le [OF frameDelta_pos])

lemma simulatedTime_Cons: "simulatedTime (d # ds) = frameDelta d + simulatedTime ds"
  by (simp add: simulatedTime_def)

lemma simulatedTime_append: "simulatedTime (xs @ ys) = simulatedTime xs + simulatedTime ys"
  by (simp add: simulatedTime_def)

lemma simulatedTime_replicate: "simulatedTime (replicate n d) = real n * frameDelta d"
  by (induction n) (simp_all add: simulatedTime_def algebra_simps)

lemma length_le_simulatedTime: "real (length ds) \<le> simulatedTime ds * 100001"
proof (induction ds)
  case Nil
  show ?case by (simp add: simulatedTime_def)
next
  case (Cons d ds)
  show ?case
    using Cons frameDelta_bounds(1) [of d] by (simp add: simulatedTime_Cons)
qed

lemma frames_rounding:
  assumes "simulatedTime ds \<le> 8"
  shows "real (length ds) / 2 ^ 50 \<le> 1 / 2 ^ 30"
proof -
  have "real (length ds) \<le> 2 ^ 20"
    using length_le_simulatedTime [of ds] assms by simp
  then show ?thesis by (simp add: field_simps)
qed

lemma length_Cons_rounding:
  "real (length (d # ds)) / 2 ^ 50 = real (length ds) / 2 ^ 50 + 1 / 2 ^ 50"
  by (simp add: add_divide_distrib)

lemma rotation_step:
  assumes "0 \<le> r" "r + frameDelta d \<le> 8"
  shows "\<bar>roundF64 (r + frameDelta d) - (r + frameDelta d)\<bar> \<le> 1 / 2 ^ 50"
    and "0 \<le> roundF64 (r + frameDelta d)"
proof -
  let ?x = "r + frameDelta d"
  have x: "1 / 100001 \<le> ?x"
    using assms(1) frameDelta_bounds(1) [of d] by linarith
  then have "\<bar>roundF64 ?x - ?x\<bar> \<le> \<bar>?x\<bar> / 2 ^ 53"
    by (intro roundF64_error) simp
  also have "\<dots> \<le> 8 / 2 ^ 53"
    using x assms(2) by (intro divide_right_mono) simp_all
  finally show "\<bar>roundF64 ?x - ?x\<bar> \<le> 1 / 2 ^ 50" by simp
  show "0 \<le> roundF64 ?x"
    using x by (intro roundF64_nonneg) simp
qed

lemma progress_step:
  assumes "0 \<le> p" "p \<le> 1"
  shows "\<bar>roundF64 (p + roundF64 (frameDelta d / morphDuration))
           - (p + frameDelta d / morphDuration)\<bar> \<le> 1 / 2 ^ 50"
    and "0 \<le> roundF64 (p + roundF64 (frameDelta d / morphDuration))"
proof -
  define q where "q = frameDelta d / morphDuration"
  have md: "0 < morphDuration" using morphDuration_bounds(1) by simp
  have "1 / 100001 / (3 / 10) \<le> q"
    unfolding q_def
    using frameDelta_bounds(1) [of d] morphDuration_bounds md
    by (intro frac_le) simp_all
  then have q1: "1 / 2 ^ 20 \<le> q" by simp
  have "q \<le> (1 / 59) / (29 / 100)"
    unfolding q_def
    using frameDelta_bounds(2) [of d] morphDuration_bounds frameDelta_pos [of d]
    by (intro frac_le) simp_all
  then have q2: "q \<le> 1 / 16" by simp
  have "\<bar>roundF64 q - q\<bar> \<le> \<bar>q\<bar> / 2 ^ 53"
    using q1 by (intro roundF64_error) simp
  also have "\<dots> \<le> (1 / 16) / 2 ^ 53"
    using q1 q2 by (intro divide_right_mono) simp_all
  finally have e1: "\<bar>roundF64 q - q\<bar> \<le> 1 / 2 ^ 57" by simp
  define x where "x = p + roundF64 q"
  have x1: "1 / 2 ^ 21 \<le> x"
    unfolding x_def using assms(1) q1 abs_leD [OF e1] by simp
  have x2: "x \<le> 2"
    unfolding x_def using assms(2) q2 abs_leD [OF e1] by simp
  have "\<bar>roundF64 x - x\<bar> \<le> \<bar>x\<bar> / 2 ^ 53"
    using x1 by (intro roundF64_error) simp
  also have "\<dots> \<le> 2 / 2 ^ 53"
    using x1 x2 by (intro divide_right_mono) simp_all
  finally have e2: "\<bar>roundF64 x - x\<bar> \<le> 1 / 2 ^ 52" by simp
  have "\<bar>roundF64 x - (p + q)\<bar> \<le> 1 / 2 ^ 50"
    using abs_leD [OF e1] abs_leD [OF e2] unfolding x_def
    by (intro abs_leI) (simp; linarith)+
  then show "\<bar>roundF64 (p + roundF64 (frameDelta d / morphDuration))
           - (p + frameDelta d / morphDuration)\<bar> \<le> 1 / 2 ^ 50"
    by (simp add: x_def q_def)
  have "0 \<le> roundF64 x"
    using x1 by (intro roundF64_nonneg) simp
  then show "0 \<le> roundF64 (p + roundF64 (frameDelta d / morphDuration))"
    by (simp add: x_def q_def)
qed

lemma rotationAfter_Cons:
  "rotationAfter (d # ds) r = rotationAfter ds (roundF64 (r + frameDelta d))"
  by (simp add: rotationAfter_def)

lemma rotationAfter_append:
  "rotationAfter (xs @ ys) r = rotationAfter ys (rotationAfter xs r)"
  by (simp add: rotationAfter_def)

lemma progressAfter_Cons: "progressAfter (d # ds) p = progressAfter ds (progressStep d p)"
  by (simp add: progressAfter_def)

lemma rotationAfter_bound:
  assumes "0 \<le> r" "r + simulatedTime ds + real (length ds) / 2 ^ 50 \<le> 8"
  shows "\<bar>rotationAfter ds r - (r + simulatedTime ds)\<bar> \<le> real (length ds) / 2 ^ 50 \<and>
     0 \<le> rotationAfter ds r"
  using assms
proof (induction ds arbitrary: r)
  case Nil
  then show ?case by (simp add: rotationAfter_def simulatedTime_def)
next
  case (Cons d ds)
  define k where "k = real (length ds) / 2 ^ 50"
  define r1 where "r1 = roundF64 (r + frameDelta d)"
  have k: "0 \<le> k" by (simp add: k_def)
  have t: "0 \<le> simulatedTime ds" by (rule simulatedTime_nonneg)
  have prem: "r + (frameDelta d + simulatedTime ds) + (k + 1 / 2 ^ 50) \<le> 8"
    using Cons.prems(2) unfolding length_Cons_rounding simulatedTime_Cons k_def .
  have le8: "r + frameDelta d \<le> 8"
    using prem t k by simp
  note st = rotation_step [OF Cons.prems(1) le8, folded r1_def]
  have "r1 + simulatedTime ds + k \<le> 8"
    using prem abs_leD [OF st(1)] by linarith
  from Cons.IH [OF st(2) this [unfolded k_def]]
  have ih: "\<bar>rotationAfter ds r1 - (r1 + simulatedTime ds)\<bar> \<le> k" "0 \<le> rotationAfter ds r1"
    by (simp_all add: k_def)
  have "\<bar>rotationAfter ds r1 - (r + (frameDelta d + simulatedTime ds))\<bar> \<le> k + 1 / 2 ^ 50"
    using abs_leD [OF ih(1)] abs_leD [OF st(1)] by (intro abs_leI) linarith+
  then show ?case
    unfolding length_Cons_rounding simulatedTime_Cons rotationAfter_Cons
    using ih(2) by (simp add: k_def r1_def)
qed

lemma progressStep_settled: "1 \<le> p \<Longrightarrow> progressStep d p = p"
  by (simp add: progressStep_def)

lemma progressAfter_settled: "1 \<le> p \<Longrightarrow> progressAfter ds p = p"
  by (induction ds) (simp_all add: progressAfter_def progressStep_settled)

lemma progressStep_range:
  assumes "0 \<le> p" "p \<le> 1"
  shows "0 \<le> progressStep d p" "progressStep d p \<le> 1"
  using progress_step(2) [OF assms, of d] assms by (simp_all add: progressStep_def)

lemma progressAfter_range:
  assumes "0 \<le> p" "p \<le> 1"
  shows "0 \<le> progressAfter ds p \<and> progressAfter ds p \<le> 1"
  using assms
proof (induction ds arbitrary: p)
  case Nil
  then show ?case by (simp add: progressAfter_def)
next
  case (Cons d ds)
  show ?case
    unfolding progressAfter_Cons
    by (rule Cons.IH [OF progressStep_range [OF Cons.prems]])
qed

lemma progressAfter_below:
  assumes "0 \<le> p"
    and "p + simulatedTime ds / morphDuration + real (length ds) / 2 ^ 50 < 1"
  shows "\<bar>progressAfter ds p - (p + simulatedTime ds / morphDuration)\<bar>
           \<le> real (length ds) / 2 ^ 50"
  using assms
proof (induction ds arbitrary: p)
  case Nil
  then show ?case by (simp add: progressAfter_def simulatedTime_def)
next
  case (Cons d ds)
  define k where "k = real (length ds) / 2 ^ 50"
  define q where "q = frameDelta d / morphDuration"
  define t where "t = simulatedTime ds / morphDuration"
  define x where "x = roundF64 (p + roundF64 (frameDelta d / morphDuration))"
  have md: "0 < morphDuration" using morphDuration_bounds(1) by simp
  have k: "0 \<le> k" by (simp add: k_def)
  have t: "0 \<le> t"
    using simulatedTime_nonneg [of ds] md by (simp add: t_def)
  have q: "0 < q"
    using frameDelta_pos [of d] md by (simp add: q_def)
  have split: "simulatedTime (d # ds) / morphDuration = q + t"
    by (simp add: simulatedTime_Cons add_divide_distrib q_def t_def)
  have prem: "p + (q + t) + (k + 1 / 2 ^ 50) < 1"
    using Cons.prems(2) unfolding length_Cons_rounding split k_def .
  have p1: "p \<le> 1" "p < 1"
    using prem t q k by simp_all
  note st = progress_step [OF Cons.prems(1) p1(1), of d, folded x_def, folded q_def]
  have x1: "x < 1"
    using prem abs_leD [OF st(1)] t k by linarith
  have ps: "progressStep d p = x"
    using p1 x1 by (simp add: progressStep_def x_def)
  have "x + t + k < 1"
    using prem abs_leD [OF st(1)] by linarith
  from Cons.IH [OF st(2) this [unfolded t_def k_def]]
  have ih: "\<bar>progressAfter ds x - (x + t)\<bar> \<le> k"
    by (simp add: t_def k_def)
  have "\<bar>progressAfter ds x - (p + (q + t))\<bar> \<le> k + 1 / 2 ^ 50"
    using abs_leD [OF ih] abs_leD [OF st(1)] by (intro abs_leI) linarith+
  then show ?case
    unfolding length_Cons_rounding split progressAfter_Cons ps by (simp add: k_def)
qed

lemma progressAfter_saturated:
  assumes "0 \<le> p" "p \<le> 1"
    and "1 + real (length ds) / 2 ^ 50 \<le> p + simulatedTime ds / morphDuration"
  shows "progressAfter ds p = 1"
  using assms
proof (induction ds arbitrary: p)
  case Nil
  then show ?case by (simp add: progressAfter_def simulatedTime_def)
next
  case (Cons d ds)
  define k where "k = real (length ds) / 2 ^ 50"
  define q where "q = frameDelta d / morphDuration"
  define t where "t = simulatedTime ds / morphDuration"
  define x where "x = roundF64 (p + roundF64 (frameDelta d / morphDuration))"
  have split: "simulatedTime (d # ds) / morphDuration = q + t"
    by (simp add: simulatedTime_Cons add_divide_distrib q_def t_def)
  have prem: "1 + (k + 1 / 2 ^ 50) \<le> p + (q + t)"
    using Cons.prems(3) unfolding length_Cons_rounding split k_def .
  note st = progress_step [OF Cons.prems(1,2), of d, folded x_def, folded q_def]
  show ?case
  proof (cases "p < 1 \<and> x < 1")
    case True
    then have ps: "progressStep d p = x"
      by (simp add: progressStep_def x_def)
    have x1: "x \<le> 1" using True by simp
    have "1 + k \<le> x + t"
      using prem abs_leD [OF st(1)] by linarith
    from Cons.IH [OF st(2) x1 this [unfolded t_def k_def]] show ?thesis
      by (simp add: progressAfter_Cons ps)
  next
    case False
    then have "progressStep d p = 1"
      using Cons.prems(2) by (auto simp: progressStep_def x_def)
    then show ?thesis
      by (simp add: progressAfter_Cons progressAfter_settled)
  qed
qed


lemma updateMorphing_idle:
  assumes "roundF64 (autoMorphRotation s + rd) < fullRotation"
  shows "updateMorphing dt rd s =
     (if morphProgress s < 1 then
        (if 1 \<le> roundF64 (morphProgress s + roundF64 (dt / morphDuration))
         then s\<lparr>autoMorphRotation := roundF64 (autoMorphRotation s + rd), morphProgress := 1,
                currentShapeIndex := nextShapeIndex s\<rparr>
         else s\<lparr>autoMorphRotation := roundF64 (autoMorphRotation s + rd),
                morphProgress := roundF64 (morphProgress s + roundF64 (dt / morphDuration))\<rparr>)
      else s\<lparr>autoMorphRotation := roundF64 (autoMorphRotation s + rd)\<rparr>)"
  using assms by (simp add: updateMorphing_def Let_def)


lemma renderFrames_Cons: "renderFrames (d # ds) s = renderFrames ds (renderMorph d s)"
  by (simp add: renderFrames_def)


lemma renderMorph_idle:
  assumes "roundF64 (autoMorphRotation s + frameDelta d) < fullRotation"
  shows "renderMorph d s =
     s\<lparr>autoMorphRotation := roundF64 (autoMorphRotation s + frameDelta d),
       morphProgress := progressStep d (morphProgress s),
       currentShapeIndex := (if morphProgress s < 1 \<and> 1 \<le> progressStep d (morphProgress s)
          then nextShapeIndex s else currentShapeIndex s)\<rparr>"
  using assms
  by (simp add: renderMorph_def Let_def updateMorphing_idle progressStep_def min_def)

lemma renderFrames_no_trigger:
  assumes "0 \<le> autoMorphRotation s"
    and "autoMorphRotation s + simulatedTime ds + real (length ds) / 2 ^ 50 < fullRotation"
  shows "renderFrames ds s =
     s\<lparr>autoMorphRotation := rotationAfter ds (autoMorphRotation s),
       morphProgress := progressAfter ds (morphProgress s),
       currentShapeIndex := (if morphProgress s < 1 \<and> 1 \<le> progressAfter ds (morphProgress s)
          then nextShapeIndex s else currentShapeIndex s)\<rparr>"
  using assms
proof (induction ds arbitrary: s)
  case Nil
  then show ?case by (simp add: renderFrames_def rotationAfter_def progressAfter_def)
next
  case (Cons d ds)
  define k where "k = real (length ds) / 2 ^ 50"
  define r where "r = autoMorphRotation s"
  define r1 where "r1 = roundF64 (r + frameDelta d)"
  have k: "0 \<le> k" by (simp add: k_def)
  have t: "0 \<le> simulatedTime ds" by (rule simulatedTime_nonneg)
  have r0: "0 \<le> r" using Cons.prems(1) by (simp add: r_def)
  have prem: "r + (frameDelta d + simulatedTime ds) + (k + 1 / 2 ^ 50) < fullRotation"
    using Cons.prems(2) unfolding length_Cons_rounding simulatedTime_Cons k_def r_def .
  have le8: "r + frameDelta d \<le> 8"
    using prem t k fullRotation_bounds(2) by simp
  note st = rotation_step [OF r0 le8, folded r1_def]
  have idle: "r1 < fullRotation"
    using prem abs_leD [OF st(1)] t k by linarith
  have step: "renderMorph d s =
     s\<lparr>autoMorphRotation := r1,
       morphProgress := progressStep d (morphProgress s),
       currentShapeIndex := (if morphProgress s < 1 \<and> 1 \<le> progressStep d (morphProgress s)
          then nextShapeIndex s else currentShapeIndex s)\<rparr>"
    using idle unfolding r1_def r_def by (rule renderMorph_idle)
  have r1': "0 \<le> autoMorphRotation (renderMorph d s)"
    using st(2) by (simp add: step)
  have "r1 + simulatedTime ds + k < fullRotation"
    using prem abs_leD [OF st(1)] by linarith
  then have rot': "autoMorphRotation (renderMorph d s) + simulatedTime ds
      + real (length ds) / 2 ^ 50 < fullRotation"
    by (simp add: step k_def)
  have settle: "1 \<le> progressStep d (morphProgress s) \<Longrightarrow>
      progressAfter ds (progressStep d (morphProgress s)) = progressStep d (morphProgress s)"
    by (rule progressAfter_settled)
  show ?case
    unfolding renderFrames_Cons Cons.IH [OF r1' rot']
    unfolding step rotationAfter_Cons progressAfter_Cons r1_def r_def
    using settle by (auto simp: progressStep_settled)
qed

lemma renderFrames_stretch:
  assumes "0 \<le> autoMorphRotation s"
    and "autoMorphRotation s + simulatedTime ds \<le> fullRotation - 1 / 2 ^ 29"
  shows "renderFrames ds s =
     s\<lparr>autoMorphRotation := rotationAfter ds (autoMorphRotation s),
       morphProgress := progressAfter ds (morphProgress s),
       currentShapeIndex := (if morphProgress s < 1 \<and> 1 \<le> progressAfter ds (morphProgress s)
          then nextShapeIndex s else currentShapeIndex s)\<rparr>"
    and "\<bar>rotationAfter ds (autoMorphRotation s) - (autoMorphRotation s + simulatedTime ds)\<bar>
           \<le> 1 / 2 ^ 30"
    and "0 \<le> rotationAfter ds (autoMorphRotation s)"
    and "real (length ds) / 2 ^ 50 \<le> 1 / 2 ^ 30"
proof -
  have "(0::real) < 1 / 2 ^ 29" by simp
  then have "simulatedTime ds \<le> 8"
    using assms fullRotation_bounds(2) by linarith
  then show k: "real (length ds) / 2 ^ 50 \<le> 1 / 2 ^ 30"
    by (rule frames_rounding)
  have lt: "autoMorphRotation s + simulatedTime ds + real (length ds) / 2 ^ 50 < fullRotation"
    using assms(2) k by (simp; linarith)
  show "renderFrames ds s =
     s\<lparr>autoMorphRotation := rotationAfter ds (autoMorphRotation s),
       morphProgress := progressAfter ds (morphProgress s),
       currentShapeIndex := (if morphProgress s < 1 \<and> 1 \<le> progressAfter ds (morphProgress s)
          then nextShapeIndex s else currentShapeIndex s)\<rparr>"
    by (rule renderFrames_no_trigger [OF assms(1) lt])
  have "autoMorphRotation s + simulatedTime ds + real (length ds) / 2 ^ 50 \<le> 8"
    using lt fullRotation_bounds(2) by linarith
  note b = rotationAfter_bound [OF assms(1) this]
  show "\<bar>rotationAfter ds (autoMorphRotation s) - (autoMorphRotation s + simulatedTime ds)\<bar>
           \<le> 1 / 2 ^ 30"
    using b k by linarith
  show "0 \<le> rotationAfter ds (autoMorphRotation s)"
    using b by simp
qed



lemma renderFrames_initial:
  assumes "simulatedTime ds \<le> fullRotation - roundingMargin"
  shows "renderFrames ds initialMorph =
     \<lparr>currentShapeIndex = (if 1 \<le> progressAfter ds 0 then 1 else 0),
      nextShapeIndex = 1,
      morphProgress = progressAfter ds 0,
      autoMorphRotation = rotationAfter ds 0\<rparr>"
    and "\<bar>rotationAfter ds 0 - simulatedTime ds\<bar> \<le> 1 / 2 ^ 30"
    and "0 \<le> rotationAfter ds 0"
    and "0 \<le> progressAfter ds 0" "progressAfter ds 0 \<le> 1"
    and "simulatedTime ds \<le> morphDuration * (1 - roundingMargin) \<Longrightarrow>
       \<bar>progressAfter ds 0 - simulatedTime ds / morphDuration\<bar> \<le> 1 / 2 ^ 30 \<and>
       progressAfter ds 0 < 1"
    and "morphDuration * (1 + roundingMargin) \<le> simulatedTime ds \<Longrightarrow> progressAfter ds 0 = 1"
proof -
  have r0: "0 \<le> autoMorphRotation initialMorph" by (simp add: initialMorph_def)
  have i: "autoMorphRotation initialMorph + simulatedTime ds \<le> fullRotation - 1 / 2 ^ 29"
    using assms by (simp add: initialMorph_def roundingMargin_def)
  note st = renderFrames_stretch [OF r0 i]
  show "renderFrames ds initialMorph =
     \<lparr>currentShapeIndex = (if 1 \<le> progressAfter ds 0 then 1 else 0),
      nextShapeIndex = 1,
      morphProgress = progressAfter ds 0,
      autoMorphRotation = rotationAfter ds 0\<rparr>"
    unfolding st(1) by (simp add: initialMorph_def)
  show "\<bar>rotationAfter ds 0 - simulatedTime ds\<bar> \<le> 1 / 2 ^ 30" "0 \<le> rotationAfter ds 0"
    using st(2,3) by (simp_all add: initialMorph_def)
  show "0 \<le> progressAfter ds 0" "progressAfter ds 0 \<le> 1"
    using progressAfter_range [of 0 ds] by simp_all
  have md: "0 < morphDuration" using morphDuration_bounds(1) by simp
  {
    assume "simulatedTime ds \<le> morphDuration * (1 - roundingMargin)"
    then have "simulatedTime ds / morphDuration \<le> 1 - roundingMargin"
      using md by (simp add: field_simps)
    then have lt: "0 + simulatedTime ds / morphDuration + real (length ds) / 2 ^ 50 < 1"
      using st(4) by (simp add: roundingMargin_def)
    from progressAfter_below [OF _ lt]
    have b: "\<bar>progressAfter ds 0 - (0 + simulatedTime ds / morphDuration)\<bar>
        \<le> real (length ds) / 2 ^ 50"
      by simp
    have "\<bar>progressAfter ds 0 - simulatedTime ds / morphDuration\<bar> \<le> 1 / 2 ^ 30"
      using b st(4) by linarith
    moreover have "progressAfter ds 0 < 1"
      using abs_leD [OF b] lt by linarith
    ultimately show "\<bar>progressAfter ds 0 - simulatedTime ds / morphDuration\<bar> \<le> 1 / 2 ^ 30 \<and>
       progressAfter ds 0 < 1" ..
  }
  {
    assume "morphDuration * (1 + roundingMargin) \<le> simulatedTime ds"
    then have "1 + roundingMargin \<le> simulatedTime ds / morphDuration"
      using md by (simp add: field_simps)
    then have "1 + real (length ds) / 2 ^ 50 \<le> 0 + simulatedTime ds / morphDuration"
      using st(4) by (simp add: roundingMargin_def)
    then show "progressAfter ds 0 = 1"
      by (intro progressAfter_saturated) simp_all
  }
qed

lemma margin_le: "1 / 2 ^ 30 \<le> roundingMargin" "0 < roundingMargin"
  by (simp_all add: roundingMargin_def)



lemma frameDelta_64th: "frameDelta (1 / 64) = 1 / 64"
  by (rule frameDelta_id) simp_all


text \<open>
  At a threshold the rounding decides. Thirty frames of \<^verbatim>\<open>0.01\<close> seconds, the double
  \<open>5764607523034235 / 2\<^sup>5\<^sup>9\<close>, last longer than \<^verbatim>\<open>morphDuration\<close>, yet the thirty rounded
  additions leave the progress at \<open>1 - 2\<^sup>-\<^sup>5\<^sup>3\<close> and the current shape at 0; the next frame completes
  the morph.
\<close>

lemma roundF64_binades:
  "1 / 64 \<le> x \<Longrightarrow> x < 1 / 32 \<Longrightarrow>
     roundF64 x = of_int (roundTiesToEven (x * 2 ^ 58)) / 2 ^ 58"
  "1 / 32 \<le> x \<Longrightarrow> x < 1 / 16 \<Longrightarrow>
     roundF64 x = of_int (roundTiesToEven (x * 2 ^ 57)) / 2 ^ 57"
  "1 / 16 \<le> x \<Longrightarrow> x < 1 / 8 \<Longrightarrow>
     roundF64 x = of_int (roundTiesToEven (x * 2 ^ 56)) / 2 ^ 56"
  "1 / 8 \<le> x \<Longrightarrow> x < 1 / 4 \<Longrightarrow>
     roundF64 x = of_int (roundTiesToEven (x * 2 ^ 55)) / 2 ^ 55"
  "1 / 4 \<le> x \<Longrightarrow> x < 1 / 2 \<Longrightarrow>
     roundF64 x = of_int (roundTiesToEven (x * 2 ^ 54)) / 2 ^ 54"
  "1 / 2 \<le> x \<Longrightarrow> x < 1 \<Longrightarrow>
     roundF64 x = of_int (roundTiesToEven (x * 2 ^ 53)) / 2 ^ 53"
  by (subst roundF64_eval [of "- 6"], simp_all add: power_int_minus_divide,
      subst roundF64_eval [of "- 5"], simp_all add: power_int_minus_divide,
      subst roundF64_eval [of "- 4"], simp_all add: power_int_minus_divide,
      subst roundF64_eval [of "- 3"], simp_all add: power_int_minus_divide,
      subst roundF64_eval [of "- 2"], simp_all add: power_int_minus_divide,
      subst roundF64_eval [of "- 1"], simp_all add: power_int_minus_divide)

lemma progressAfter_replicate_numeral:
  "progressAfter (replicate (numeral k) c) p =
     progressAfter (replicate (pred_numeral k) c) (progressStep c p)"
  by (simp add: numeral_eq_Suc progressAfter_def)

lemma progressAfter_single: "progressAfter [c] p = progressStep c p"
  by (simp add: progressAfter_def)

lemma boundary_frames:
  "frameDelta (5764607523034235 / 576460752303423488) = 5764607523034235 / 576460752303423488"
  "morphDuration \<le> simulatedTime (replicate 30 (5764607523034235 / 576460752303423488))"
  "progressAfter (replicate 30 (5764607523034235 / 576460752303423488)) 0 =
     9007199254740991 / 9007199254740992"
proof -
  show f: "frameDelta (5764607523034235 / 576460752303423488) = 5764607523034235 / 576460752303423488"
    by (rule frameDelta_id) simp_all
  show "morphDuration \<le> simulatedTime (replicate 30 (5764607523034235 / 576460752303423488))"
    by (simp add: simulatedTime_replicate f morphDuration_value)
  have q: "roundF64 (5764607523034235 / 576460752303423488 / morphDuration) =
      4803839602528529 / 144115188075855872"
    unfolding morphDuration_value
    by (subst roundF64_binades(2)) (simp_all add: roundTiesToEven_def)
  have step: "progressStep (5764607523034235 / 576460752303423488) p = x"
    if "p < 1" "roundF64 (p + 4803839602528529 / 144115188075855872) = x" "x < 1" for p x
    using that unfolding progressStep_def f q by simp
  have s0:
    "roundF64 (0 + 4803839602528529 / 144115188075855872) =
       4803839602528529 / 144115188075855872"
    by (subst roundF64_binades(2), simp, simp, simp add: roundTiesToEven_def)+
  have s1:
    "roundF64 (4803839602528529 / 144115188075855872 + 4803839602528529 / 144115188075855872) =
       4803839602528529 / 72057594037927936"
    "roundF64 (4803839602528529 / 72057594037927936 + 4803839602528529 / 144115188075855872) =
       3602879701896397 / 36028797018963968"
    by (subst roundF64_binades(3), simp, simp, simp add: roundTiesToEven_def)+
  have s2:
    "roundF64 (3602879701896397 / 36028797018963968 + 4803839602528529 / 144115188075855872) =
       4803839602528529 / 36028797018963968"
    "roundF64 (4803839602528529 / 36028797018963968 + 4803839602528529 / 144115188075855872) =
       6004799503160661 / 36028797018963968"
    "roundF64 (6004799503160661 / 36028797018963968 + 4803839602528529 / 144115188075855872) =
       7205759403792793 / 36028797018963968"
    "roundF64 (7205759403792793 / 36028797018963968 + 4803839602528529 / 144115188075855872) =
       8406719304424925 / 36028797018963968"
    by (subst roundF64_binades(4), simp, simp, simp add: roundTiesToEven_def)+
  have s3:
    "roundF64 (8406719304424925 / 36028797018963968 + 4803839602528529 / 144115188075855872) =
       4803839602528529 / 18014398509481984"
    "roundF64 (4803839602528529 / 18014398509481984 + 4803839602528529 / 144115188075855872) =
       5404319552844595 / 18014398509481984"
    "roundF64 (5404319552844595 / 18014398509481984 + 4803839602528529 / 144115188075855872) =
       6004799503160661 / 18014398509481984"
    "roundF64 (6004799503160661 / 18014398509481984 + 4803839602528529 / 144115188075855872) =
       6605279453476727 / 18014398509481984"
    "roundF64 (6605279453476727 / 18014398509481984 + 4803839602528529 / 144115188075855872) =
       7205759403792793 / 18014398509481984"
    "roundF64 (7205759403792793 / 18014398509481984 + 4803839602528529 / 144115188075855872) =
       7806239354108859 / 18014398509481984"
    "roundF64 (7806239354108859 / 18014398509481984 + 4803839602528529 / 144115188075855872) =
       8406719304424925 / 18014398509481984"
    "roundF64 (8406719304424925 / 18014398509481984 + 4803839602528529 / 144115188075855872) =
       9007199254740991 / 18014398509481984"
    by (subst roundF64_binades(5), simp, simp, simp add: roundTiesToEven_def)+
  have s4:
    "roundF64 (9007199254740991 / 18014398509481984 + 4803839602528529 / 144115188075855872) =
       4803839602528529 / 9007199254740992"
    "roundF64 (4803839602528529 / 9007199254740992 + 4803839602528529 / 144115188075855872) =
       2552039788843281 / 4503599627370496"
    "roundF64 (2552039788843281 / 4503599627370496 + 4803839602528529 / 144115188075855872) =
       5404319552844595 / 9007199254740992"
    "roundF64 (5404319552844595 / 9007199254740992 + 4803839602528529 / 144115188075855872) =
       1426139882000657 / 2251799813685248"
    "roundF64 (1426139882000657 / 2251799813685248 + 4803839602528529 / 144115188075855872) =
       6004799503160661 / 9007199254740992"
    "roundF64 (6004799503160661 / 9007199254740992 + 4803839602528529 / 144115188075855872) =
       3152519739159347 / 4503599627370496"
    "roundF64 (3152519739159347 / 4503599627370496 + 4803839602528529 / 144115188075855872) =
       6605279453476727 / 9007199254740992"
    "roundF64 (6605279453476727 / 9007199254740992 + 4803839602528529 / 144115188075855872) =
       863189928579345 / 1125899906842624"
    "roundF64 (863189928579345 / 1125899906842624 + 4803839602528529 / 144115188075855872) =
       7205759403792793 / 9007199254740992"
    "roundF64 (7205759403792793 / 9007199254740992 + 4803839602528529 / 144115188075855872) =
       3752999689475413 / 4503599627370496"
    "roundF64 (3752999689475413 / 4503599627370496 + 4803839602528529 / 144115188075855872) =
       7806239354108859 / 9007199254740992"
    "roundF64 (7806239354108859 / 9007199254740992 + 4803839602528529 / 144115188075855872) =
       2026619832316723 / 2251799813685248"
    "roundF64 (2026619832316723 / 2251799813685248 + 4803839602528529 / 144115188075855872) =
       8406719304424925 / 9007199254740992"
    "roundF64 (8406719304424925 / 9007199254740992 + 4803839602528529 / 144115188075855872) =
       4353479639791479 / 4503599627370496"
    "roundF64 (4353479639791479 / 4503599627370496 + 4803839602528529 / 144115188075855872) =
       9007199254740991 / 9007199254740992"
    by (subst roundF64_binades(6), simp, simp, simp add: roundTiesToEven_def)+
  have ps:
    "progressStep (5764607523034235 / 576460752303423488) (0) =
       4803839602528529 / 144115188075855872"
    "progressStep (5764607523034235 / 576460752303423488) (4803839602528529 / 144115188075855872) =
       4803839602528529 / 72057594037927936"
    "progressStep (5764607523034235 / 576460752303423488) (4803839602528529 / 72057594037927936) =
       3602879701896397 / 36028797018963968"
    "progressStep (5764607523034235 / 576460752303423488) (3602879701896397 / 36028797018963968) =
       4803839602528529 / 36028797018963968"
    "progressStep (5764607523034235 / 576460752303423488) (4803839602528529 / 36028797018963968) =
       6004799503160661 / 36028797018963968"
    "progressStep (5764607523034235 / 576460752303423488) (6004799503160661 / 36028797018963968) =
       7205759403792793 / 36028797018963968"
    "progressStep (5764607523034235 / 576460752303423488) (7205759403792793 / 36028797018963968) =
       8406719304424925 / 36028797018963968"
    "progressStep (5764607523034235 / 576460752303423488) (8406719304424925 / 36028797018963968) =
       4803839602528529 / 18014398509481984"
    "progressStep (5764607523034235 / 576460752303423488) (4803839602528529 / 18014398509481984) =
       5404319552844595 / 18014398509481984"
    "progressStep (5764607523034235 / 576460752303423488) (5404319552844595 / 18014398509481984) =
       6004799503160661 / 18014398509481984"
    "progressStep (5764607523034235 / 576460752303423488) (6004799503160661 / 18014398509481984) =
       6605279453476727 / 18014398509481984"
    "progressStep (5764607523034235 / 576460752303423488) (6605279453476727 / 18014398509481984) =
       7205759403792793 / 18014398509481984"
    "progressStep (5764607523034235 / 576460752303423488) (7205759403792793 / 18014398509481984) =
       7806239354108859 / 18014398509481984"
    "progressStep (5764607523034235 / 576460752303423488) (7806239354108859 / 18014398509481984) =
       8406719304424925 / 18014398509481984"
    "progressStep (5764607523034235 / 576460752303423488) (8406719304424925 / 18014398509481984) =
       9007199254740991 / 18014398509481984"
    "progressStep (5764607523034235 / 576460752303423488) (9007199254740991 / 18014398509481984) =
       4803839602528529 / 9007199254740992"
    "progressStep (5764607523034235 / 576460752303423488) (4803839602528529 / 9007199254740992) =
       2552039788843281 / 4503599627370496"
    "progressStep (5764607523034235 / 576460752303423488) (2552039788843281 / 4503599627370496) =
       5404319552844595 / 9007199254740992"
    "progressStep (5764607523034235 / 576460752303423488) (5404319552844595 / 9007199254740992) =
       1426139882000657 / 2251799813685248"
    "progressStep (5764607523034235 / 576460752303423488) (1426139882000657 / 2251799813685248) =
       6004799503160661 / 9007199254740992"
    "progressStep (5764607523034235 / 576460752303423488) (6004799503160661 / 9007199254740992) =
       3152519739159347 / 4503599627370496"
    "progressStep (5764607523034235 / 576460752303423488) (3152519739159347 / 4503599627370496) =
       6605279453476727 / 9007199254740992"
    "progressStep (5764607523034235 / 576460752303423488) (6605279453476727 / 9007199254740992) =
       863189928579345 / 1125899906842624"
    "progressStep (5764607523034235 / 576460752303423488) (863189928579345 / 1125899906842624) =
       7205759403792793 / 9007199254740992"
    "progressStep (5764607523034235 / 576460752303423488) (7205759403792793 / 9007199254740992) =
       3752999689475413 / 4503599627370496"
    "progressStep (5764607523034235 / 576460752303423488) (3752999689475413 / 4503599627370496) =
       7806239354108859 / 9007199254740992"
    "progressStep (5764607523034235 / 576460752303423488) (7806239354108859 / 9007199254740992) =
       2026619832316723 / 2251799813685248"
    "progressStep (5764607523034235 / 576460752303423488) (2026619832316723 / 2251799813685248) =
       8406719304424925 / 9007199254740992"
    "progressStep (5764607523034235 / 576460752303423488) (8406719304424925 / 9007199254740992) =
       4353479639791479 / 4503599627370496"
    "progressStep (5764607523034235 / 576460752303423488) (4353479639791479 / 4503599627370496) =
       9007199254740991 / 9007199254740992"
    by (rule step, simp, rule s0 s1 s2 s3 s4, simp)+
  show "progressAfter (replicate 30 (5764607523034235 / 576460752303423488)) 0 =
     9007199254740991 / 9007199254740992"
    by (simp add: progressAfter_replicate_numeral progressAfter_single ps)
qed

lemma boundary_frames_state:
  "renderFrames (replicate 30 (5764607523034235 / 576460752303423488)) initialMorph =
     \<lparr>currentShapeIndex = 0, nextShapeIndex = 1,
      morphProgress = 9007199254740991 / 9007199254740992,
      autoMorphRotation = rotationAfter (replicate 30 (5764607523034235 / 576460752303423488)) 0\<rparr>"
proof -
  have "simulatedTime (replicate 30 (5764607523034235 / 576460752303423488))
      \<le> fullRotation - roundingMargin"
    by (simp add: simulatedTime_replicate boundary_frames(1) fullRotation_def mathPI_def
        roundingMargin_def)
  then show ?thesis
    by (simp add: renderFrames_initial(1) boundary_frames(3))
qed



text \<open>
  Claim C10. The initial morph state is current shape 0, next shape 1, progress 0. As long as
  the simulated time stays below a full turn the rotation accumulator follows that time (it was
  never reset, so no morph was started), the next shape stays 1, and the progress is the sum of
  the rounded steps \<^verbatim>\<open>deltaTime / morphDuration\<close> cut at 1: either it is still below 1 and the
  current shape is 0, or it has saturated at 1 and the current shape is 1. Up to the margin
  below \<^verbatim>\<open>morphDuration\<close> the first is the case and the progress is the simulated time divided
  by \<^verbatim>\<open>morphDuration\<close> up to rounding; from the margin above it on, the second.
\<close>

theorem initial_morph_runs_untriggered:
  "currentShapeIndex initialMorph = 0 \<and> nextShapeIndex initialMorph = 1 \<and>
   morphProgress initialMorph = 0 \<and> autoMorphRotation initialMorph = 0 \<and>
   (simulatedTime ds \<le> fullRotation - roundingMargin \<longrightarrow>
      \<bar>autoMorphRotation (renderFrames ds initialMorph) - simulatedTime ds\<bar> \<le> roundingMargin \<and>
      autoMorphRotation (renderFrames ds initialMorph) = rotationAfter ds 0 \<and>
      nextShapeIndex (renderFrames ds initialMorph) = 1 \<and>
      morphProgress (renderFrames ds initialMorph) = progressAfter ds 0 \<and>
      (0 \<le> morphProgress (renderFrames ds initialMorph) \<and>
       morphProgress (renderFrames ds initialMorph) < 1 \<and>
       currentShapeIndex (renderFrames ds initialMorph) = 0 \<or>
       morphProgress (renderFrames ds initialMorph) = 1 \<and>
       currentShapeIndex (renderFrames ds initialMorph) = 1) \<and>
      (simulatedTime ds \<le> morphDuration * (1 - roundingMargin) \<longrightarrow>
         \<bar>morphProgress (renderFrames ds initialMorph) - simulatedTime ds / morphDuration\<bar>
           \<le> roundingMargin \<and>
         morphProgress (renderFrames ds initialMorph) < 1 \<and>
         currentShapeIndex (renderFrames ds initialMorph) = 0) \<and>
      (morphDuration * (1 + roundingMargin) \<le> simulatedTime ds \<longrightarrow>
         morphProgress (renderFrames ds initialMorph) = 1 \<and>
         currentShapeIndex (renderFrames ds initialMorph) = 1))"
proof (intro conjI impI)
  show "currentShapeIndex initialMorph = 0" "nextShapeIndex initialMorph = 1"
    "morphProgress initialMorph = 0" "autoMorphRotation initialMorph = 0"
    by (simp_all add: initialMorph_def)
next
  assume h: "simulatedTime ds \<le> fullRotation - roundingMargin"
  note ini = renderFrames_initial [OF h]
  show "\<bar>autoMorphRotation (renderFrames ds initialMorph) - simulatedTime ds\<bar> \<le> roundingMargin"
    unfolding ini(1) using ini(2) margin_le(1) by simp
  show "autoMorphRotation (renderFrames ds initialMorph) = rotationAfter ds 0"
    unfolding ini(1) by simp
  show "nextShapeIndex (renderFrames ds initialMorph) = 1"
    unfolding ini(1) by simp
  show "morphProgress (renderFrames ds initialMorph) = progressAfter ds 0"
    unfolding ini(1) by simp
  show "0 \<le> morphProgress (renderFrames ds initialMorph) \<and>
       morphProgress (renderFrames ds initialMorph) < 1 \<and>
       currentShapeIndex (renderFrames ds initialMorph) = 0 \<or>
       morphProgress (renderFrames ds initialMorph) = 1 \<and>
       currentShapeIndex (renderFrames ds initialMorph) = 1"
    unfolding ini(1) using ini(4,5) by auto
  {
    assume "simulatedTime ds \<le> morphDuration * (1 - roundingMargin)"
    note b = ini(6) [OF this]
    show "\<bar>morphProgress (renderFrames ds initialMorph) - simulatedTime ds / morphDuration\<bar>
           \<le> roundingMargin"
      unfolding ini(1) using b margin_le(1) by simp
    show "morphProgress (renderFrames ds initialMorph) < 1"
      unfolding ini(1) using b by simp
    show "currentShapeIndex (renderFrames ds initialMorph) = 0"
      unfolding ini(1) using b by simp
  }
  {
    assume "morphDuration * (1 + roundingMargin) \<le> simulatedTime ds"
    note b = ini(7) [OF this]
    show "morphProgress (renderFrames ds initialMorph) = 1"
      unfolding ini(1) using b by simp
    show "currentShapeIndex (renderFrames ds initialMorph) = 1"
      unfolding ini(1) using b by simp
  }
qed

theorem initial_morph_runs_untriggered_witness:
  "simulatedTime [1 / 64] \<le> fullRotation - roundingMargin \<and>
   simulatedTime [1 / 64] \<le> morphDuration * (1 - roundingMargin) \<and>
   \<bar>morphProgress (renderFrames [1 / 64] initialMorph) - simulatedTime [1 / 64] / morphDuration\<bar>
     \<le> roundingMargin \<and>
   currentShapeIndex (renderFrames [1 / 64] initialMorph) = 0 \<and>
   simulatedTime (replicate 20 (1 / 64)) \<le> fullRotation - roundingMargin \<and>
   morphDuration * (1 + roundingMargin) \<le> simulatedTime (replicate 20 (1 / 64)) \<and>
   morphProgress (renderFrames (replicate 20 (1 / 64)) initialMorph) = 1 \<and>
   currentShapeIndex (renderFrames (replicate 20 (1 / 64)) initialMorph) = 1"
proof -
  have t1: "simulatedTime [1 / 64] = 1 / 64"
    by (simp add: simulatedTime_def frameDelta_64th)
  have t20: "simulatedTime (replicate 20 (1 / 64)) = 5 / 16"
    by (simp add: simulatedTime_replicate frameDelta_64th)
  have a: "simulatedTime [1 / 64] \<le> fullRotation - roundingMargin"
    "simulatedTime (replicate 20 (1 / 64)) \<le> fullRotation - roundingMargin"
    unfolding t1 t20 by (simp_all add: fullRotation_def mathPI_def roundingMargin_def)
  have b: "simulatedTime [1 / 64] \<le> morphDuration * (1 - roundingMargin)"
    "morphDuration * (1 + roundingMargin) \<le> simulatedTime (replicate 20 (1 / 64))"
    unfolding t1 t20 by (simp_all add: morphDuration_value roundingMargin_def)
  note A = initial_morph_runs_untriggered [of "[1 / 64]", THEN conjunct2, THEN conjunct2,
      THEN conjunct2, THEN conjunct2, THEN mp, OF a(1)]
  note B = initial_morph_runs_untriggered [of "replicate 20 (1 / 64)", THEN conjunct2,
      THEN conjunct2, THEN conjunct2, THEN conjunct2, THEN mp, OF a(2)]
  show ?thesis
    using a b A b B by blast
qed

section \<open>Properties of the fixed-point codec\<close>

lemma sint_word_of_int_i32:
  "- 2147483648 \<le> v \<Longrightarrow> v \<le> 2147483647 \<Longrightarrow> sint (word_of_int v :: i32) = v"
  by (simp add: int_word_sint)

lemma truncateReal_bounds:
  "\<bar>real_of_int (truncateReal r) - r\<bar> < 1" "\<bar>real_of_int (truncateReal r)\<bar> \<le> \<bar>r\<bar>"
  unfolding truncateReal_def by (auto; linarith)+

lemma truncateReal_mono_abs: "\<bar>r\<bar> < real_of_int n \<Longrightarrow> \<bar>truncateReal r\<bar> < n"
  using truncateReal_bounds(2) [of r] by linarith

lemma sint_toInt:
  assumes "\<bar>r\<bar> < 2147483648"
  shows "sint (toInt r) = truncateReal r"
proof -
  have "\<bar>truncateReal r\<bar> < 2147483648"
    using truncateReal_mono_abs [of r 2147483648] assms by simp
  then show ?thesis
    unfolding toInt_def by (subst sint_word_of_int_i32) auto
qed

lemma sint_toInt_saturating:
  assumes "\<bar>y\<bar> \<le> 2147483648"
  shows "sint (toInt y) = min 2147483647 (truncateReal y)"
    and "\<bar>real_of_int (sint (toInt y)) - y\<bar> \<le> 1"
    and "\<bar>real_of_int (sint (toInt y))\<bar> \<le> \<bar>y\<bar>"
proof -
  have t: "\<bar>real_of_int (truncateReal y) - y\<bar> < 1" "\<bar>real_of_int (truncateReal y)\<bar> \<le> \<bar>y\<bar>"
    by (rule truncateReal_bounds)+
  have b: "- 2147483648 \<le> truncateReal y" "truncateReal y \<le> 2147483648"
    using t(2) assms by linarith+
  have s: "sint (toInt y) = min 2147483647 (truncateReal y)"
    unfolding toInt_def using b by (subst sint_word_of_int_i32) auto
  show "sint (toInt y) = min 2147483647 (truncateReal y)" by (rule s)
  show "\<bar>real_of_int (sint (toInt y)) - y\<bar> \<le> 1"
  proof (cases "truncateReal y = 2147483648")
    case True
    then have "0 \<le> y"
      by (rule_tac ccontr) (simp add: truncateReal_def split: if_splits, linarith)
    with True have "y = 2147483648"
      using t(2) assms by simp
    then show ?thesis
      unfolding s using True by simp
  next
    case False
    then have "min 2147483647 (truncateReal y) = truncateReal y"
      using b by simp
    then show ?thesis
      unfolding s using t(1) by simp
  qed
  show "\<bar>real_of_int (sint (toInt y))\<bar> \<le> \<bar>y\<bar>"
    unfolding s using t(2) b by (simp add: min_def) linarith
qed

lemma decodeFixedPointF32_error_tight:
  "\<bar>decodeFixedPointF32 i - real_of_int (sint i) / 10000000\<bar>
     \<le> \<bar>real_of_int (sint i)\<bar> / 10000000 * (1 / 2 ^ 23 + 1 / 2 ^ 48)"
proof (cases "sint i = 0")
  case True
  then show ?thesis
    by (simp add: decodeFixedPointF32_def toFloatF32_def)
next
  case False
  define n where "n = real_of_int (sint i)"
  define f where "f = roundF32 n"
  define d where "d = roundF32 (f / 10000000)"
  have n1: "1 \<le> \<bar>n\<bar>"
    using False unfolding n_def by linarith
  have e1: "\<bar>f - n\<bar> \<le> \<bar>n\<bar> / 2 ^ 24"
    unfolding f_def using n1 by (intro roundF32_error) simp
  have tri: "\<bar>n\<bar> - \<bar>f - n\<bar> \<le> \<bar>f\<bar>" "\<bar>f\<bar> \<le> \<bar>n\<bar> + \<bar>f - n\<bar>"
    by linarith+
  have "\<bar>n\<bar> / 2 ^ 24 \<le> \<bar>n\<bar> / 2"
    by (intro divide_left_mono) simp_all
  then have f1: "1 / 2 \<le> \<bar>f\<bar>" "\<bar>f\<bar> \<le> \<bar>n\<bar> + \<bar>n\<bar> / 2 ^ 24"
    using e1 n1 tri by linarith+
  have "1 / 2 ^ 64 \<le> \<bar>f / 10000000\<bar>"
    using f1(1) by simp
  then have e2: "\<bar>d - f / 10000000\<bar> \<le> \<bar>f / 10000000\<bar> / 2 ^ 24"
    unfolding d_def by (rule roundF32_error)
  have "\<bar>d - n / 10000000\<bar> \<le> \<bar>d - f / 10000000\<bar> + \<bar>f - n\<bar> / 10000000"
    by (simp add: field_simps)
  also have "\<dots> \<le> \<bar>f\<bar> / 10000000 / 2 ^ 24 + \<bar>n\<bar> / 2 ^ 24 / 10000000"
    using e1 e2 by (intro add_mono) (simp_all add: field_simps)
  also have "\<dots> \<le> \<bar>n\<bar> / 10000000 * (1 / 2 ^ 23 + 1 / 2 ^ 48)"
    using f1(2) by (simp add: field_simps)
  finally show ?thesis
    by (simp add: decodeFixedPointF32_def toFloatF32_def n_def f_def d_def fixedPointMultiplier_def)
qed

lemma decodeFixedPointF32_error:
  "\<bar>decodeFixedPointF32 i - real_of_int (sint i) / 10000000\<bar>
     \<le> \<bar>real_of_int (sint i)\<bar> / 10000000 / 2 ^ 22"
proof -
  have "\<bar>real_of_int (sint i)\<bar> / 10000000 * (1 / 2 ^ 23 + 1 / 2 ^ 48)
      \<le> \<bar>real_of_int (sint i)\<bar> / 10000000 / 2 ^ 22"
    by (simp add: field_simps)
  then show ?thesis
    using decodeFixedPointF32_error_tight [of i] by linarith
qed

lemma encodeFixedPointF32_small:
  assumes "\<bar>r * 10000000\<bar> < 1 / 2"
  shows "encodeFixedPointF32 r = 0"
proof -
  have "\<bar>r * 10000000\<bar> \<le> 2 powi (- 1)"
    using assms by (simp add: power_int_minus_divide)
  then have "\<bar>roundF32 (r * 10000000)\<bar> \<le> 2 powi (- 1)"
    by (rule roundF32_abs_le) simp
  then have "\<bar>roundF32 (r * 10000000)\<bar> < 1"
    by (simp add: power_int_minus_divide)
  then have "truncateReal (roundF32 (r * 10000000)) = 0"
    unfolding truncateReal_def by (auto; linarith)
  then show ?thesis
    by (simp add: encodeFixedPointF32_def toInt_def fixedPointMultiplier_def)
qed

lemma decodeFixedPointF32_zero: "decodeFixedPointF32 0 = 0"
  by (simp add: decodeFixedPointF32_def toFloatF32_def)

lemma encodeFixedPointF32_bounds:
  assumes "\<bar>r * 10000000\<bar> < 2147483648"
  shows "sint (encodeFixedPointF32 r) = min 2147483647 (truncateReal (roundF32 (r * 10000000)))"
    and "\<bar>real_of_int (sint (encodeFixedPointF32 r)) - r * 10000000\<bar>
           \<le> 1 + \<bar>r * 10000000\<bar> / 2 ^ 24"
    and "\<bar>real_of_int (sint (encodeFixedPointF32 r))\<bar>
           \<le> \<bar>r * 10000000\<bar> + \<bar>r * 10000000\<bar> / 2 ^ 24"
proof -
  define p where "p = r * 10000000"
  define y where "y = roundF32 p"
  have "\<bar>p\<bar> \<le> 2 powi 31"
    using assms by (simp add: p_def)
  then have "\<bar>y\<bar> \<le> 2 powi 31"
    unfolding y_def by (rule roundF32_abs_le) simp
  then have y: "\<bar>y\<bar> \<le> 2147483648" by simp
  note s = sint_toInt_saturating [OF y]
  have enc: "encodeFixedPointF32 r = toInt y"
    by (simp add: encodeFixedPointF32_def fixedPointMultiplier_def y_def p_def)
  show "sint (encodeFixedPointF32 r) = min 2147483647 (truncateReal (roundF32 (r * 10000000)))"
    unfolding enc s(1) by (simp add: y_def p_def)
  have e: "\<bar>y - p\<bar> \<le> \<bar>p\<bar> / 2 ^ 24 \<or> encodeFixedPointF32 r = 0 \<and> \<bar>p\<bar> < 1 / 2"
  proof (cases "\<bar>p\<bar> < 1 / 2")
    case True
    then show ?thesis
      using encodeFixedPointF32_small [of r] by (simp add: p_def)
  next
    case False
    then have "1 / 2 ^ 64 \<le> \<bar>p\<bar>" by simp
    then show ?thesis
      unfolding y_def using roundF32_error by blast
  qed
  have k: "0 \<le> \<bar>p\<bar> / 2 ^ 24" by simp
  show "\<bar>real_of_int (sint (encodeFixedPointF32 r)) - r * 10000000\<bar>
           \<le> 1 + \<bar>r * 10000000\<bar> / 2 ^ 24"
    unfolding p_def [symmetric]
    using e
  proof
    assume "\<bar>y - p\<bar> \<le> \<bar>p\<bar> / 2 ^ 24"
    then show "\<bar>real_of_int (sint (encodeFixedPointF32 r)) - p\<bar> \<le> 1 + \<bar>p\<bar> / 2 ^ 24"
      unfolding enc using s(2) by linarith
  next
    assume "encodeFixedPointF32 r = 0 \<and> \<bar>p\<bar> < 1 / 2"
    then show "\<bar>real_of_int (sint (encodeFixedPointF32 r)) - p\<bar> \<le> 1 + \<bar>p\<bar> / 2 ^ 24"
      using k by simp
  qed
  show "\<bar>real_of_int (sint (encodeFixedPointF32 r))\<bar>
           \<le> \<bar>r * 10000000\<bar> + \<bar>r * 10000000\<bar> / 2 ^ 24"
    unfolding p_def [symmetric]
    using e
  proof
    assume "\<bar>y - p\<bar> \<le> \<bar>p\<bar> / 2 ^ 24"
    then show "\<bar>real_of_int (sint (encodeFixedPointF32 r))\<bar> \<le> \<bar>p\<bar> + \<bar>p\<bar> / 2 ^ 24"
      unfolding enc using s(3) by linarith
  next
    assume "encodeFixedPointF32 r = 0 \<and> \<bar>p\<bar> < 1 / 2"
    then show "\<bar>real_of_int (sint (encodeFixedPointF32 r))\<bar> \<le> \<bar>p\<bar> + \<bar>p\<bar> / 2 ^ 24"
      using k by simp
  qed
qed

lemma codec_round_trip:
  assumes "\<bar>r * 10000000\<bar> < 2147483648"
  shows "\<bar>decodeFixedPointF32 (encodeFixedPointF32 r) - r\<bar> \<le> 1 / 10000000 + \<bar>r\<bar> / 2 ^ 22"
proof -
  define n where "n = real_of_int (sint (encodeFixedPointF32 r))"
  define d where "d = decodeFixedPointF32 (encodeFixedPointF32 r)"
  define a where "a = \<bar>r\<bar>"
  note b = encodeFixedPointF32_bounds [OF assms, folded n_def]
  have pa: "\<bar>r * 10000000\<bar> = a * 10000000"
    by (simp add: a_def abs_mult)
  have a0: "0 \<le> a" by (simp add: a_def)
  have 1: "\<bar>d - n / 10000000\<bar> \<le> \<bar>n\<bar> / 10000000 * (1 / 2 ^ 23 + 1 / 2 ^ 48)"
    unfolding d_def n_def by (rule decodeFixedPointF32_error_tight)
  have 2: "\<bar>n / 10000000 - r\<bar> \<le> 1 / 10000000 + a / 2 ^ 24"
  proof -
    have "\<bar>n / 10000000 - r\<bar> = \<bar>n - r * 10000000\<bar> / 10000000"
      by (simp add: field_simps)
    also have "\<dots> \<le> (1 + a * 10000000 / 2 ^ 24) / 10000000"
      using b(2) unfolding pa by (intro divide_right_mono) simp_all
    finally show ?thesis by (simp add: field_simps)
  qed
  have 3: "\<bar>n\<bar> / 10000000 * (1 / 2 ^ 23 + 1 / 2 ^ 48)
      \<le> (a + a / 2 ^ 24) * (1 / 2 ^ 23 + 1 / 2 ^ 48)"
  proof -
    have "\<bar>n\<bar> / 10000000 \<le> (a * 10000000 + a * 10000000 / 2 ^ 24) / 10000000"
      using b(3) unfolding pa by (intro divide_right_mono) simp_all
    then have "\<bar>n\<bar> / 10000000 \<le> a + a / 2 ^ 24"
      by (simp add: field_simps)
    then show ?thesis
      by (intro mult_right_mono) simp_all
  qed
  have "\<bar>d - r\<bar> \<le> \<bar>d - n / 10000000\<bar> + \<bar>n / 10000000 - r\<bar>"
    by linarith
  then have "\<bar>d - r\<bar> \<le> (a + a / 2 ^ 24) * (1 / 2 ^ 23 + 1 / 2 ^ 48)
      + (1 / 10000000 + a / 2 ^ 24)"
    using 1 2 3 by linarith
  moreover have "(a + a / 2 ^ 24) * (1 / 2 ^ 23 + 1 / 2 ^ 48) + a / 2 ^ 24 \<le> a / 2 ^ 22"
    using a0 by (simp add: field_simps)
  ultimately show ?thesis
    unfolding d_def a_def by linarith
qed

lemma roundF32_sample: "roundF32 7500000 = 7500000"
  by (subst roundF32_eval [of 22]) (simp_all add: roundTiesToEven_def)

lemma roundF32_scaled_24: "roundF32 (78125 / 131072) = 78125 / 131072"
  by (subst roundF32_eval [of "- 1"]) (simp_all add: roundTiesToEven_def power_int_minus_divide)

text \<open>
  Two samples of the rounding. At \<open>r = 16624043 / 2\<^sup>2\<^sup>5\<close> the rounded product lies above the
  next integer, so the encoding is one more than the truncated exact product. At
  \<open>r = 14638385 / 2\<^sup>2\<^sup>3\<close> the round trip is off by \<open>2\<^sup>-\<^sup>2\<^sup>3\<close>, more than \<open>1 / 10\<^sup>7\<close>.
\<close>

lemma binary32_product_sample:
  "sint (encodeFixedPointF32 (16624043 / 33554432)) = 4954351"
  "truncateReal (16624043 / 33554432 * 10000000) = 4954350"
proof -
  have "roundF32 (16624043 / 33554432 * 10000000) = 4954351"
    by (subst roundF32_eval [of 22])
      (simp_all add: roundTiesToEven_def power_int_minus_divide)
  then show "sint (encodeFixedPointF32 (16624043 / 33554432)) = 4954351"
    by (simp add: encodeFixedPointF32_def fixedPointMultiplier_def toInt_def truncateReal_def)
  show "truncateReal (16624043 / 33554432 * 10000000) = 4954350"
    by (simp add: truncateReal_def)
qed

lemma binary32_round_trip_sample:
  "\<bar>14638385 / 8388608 * fixedPointMultiplier\<bar> < 2147483648"
  "decodeFixedPointF32 (encodeFixedPointF32 (14638385 / 8388608)) = 914899 / 524288"
  "1 / fixedPointMultiplier
     < \<bar>decodeFixedPointF32 (encodeFixedPointF32 (14638385 / 8388608)) - 14638385 / 8388608\<bar>"
proof -
  show "\<bar>14638385 / 8388608 * fixedPointMultiplier\<bar> < 2147483648"
    by (simp add: fixedPointMultiplier_def)
  have "roundF32 (14638385 / 8388608 * 10000000) = 17450314"
    by (subst roundF32_eval [of 24])
      (simp_all add: roundTiesToEven_def power_int_minus_divide)
  then have e: "encodeFixedPointF32 (14638385 / 8388608) = 17450314"
    by (simp add: encodeFixedPointF32_def fixedPointMultiplier_def toInt_def truncateReal_def)
  have f: "roundF32 17450314 = 17450314"
    by (subst roundF32_eval [of 24])
      (simp_all add: roundTiesToEven_def power_int_minus_divide)
  have d: "roundF32 (8725157 / 5000000) = 914899 / 524288"
    by (subst roundF32_eval [of 0])
      (simp_all add: roundTiesToEven_def power_int_minus_divide)
  show r: "decodeFixedPointF32 (encodeFixedPointF32 (14638385 / 8388608)) = 914899 / 524288"
    unfolding e by (simp add: decodeFixedPointF32_def toFloatF32_def fixedPointMultiplier_def f d)
  show "1 / fixedPointMultiplier
     < \<bar>decodeFixedPointF32 (encodeFixedPointF32 (14638385 / 8388608)) - 14638385 / 8388608\<bar>"
    unfolding r by (simp add: fixedPointMultiplier_def)
qed

text \<open>
  Claim C2, as the code has it. \<^verbatim>\<open>decodeFixedPoint\<close> converts the integer to binary32 and
  divides by \<open>10\<^sup>7\<close>, which differs from the exact quotient by at most its \<open>2\<^sup>-\<^sup>2\<^sup>2\<close>-th part. For
  a real \<open>r\<close> whose scaled value fits the 32-bit integer, \<^verbatim>\<open>encodeFixedPoint\<close> is the rounded
  product, truncated toward zero and capped at the largest integer; it differs from the exact
  product by at most one plus the rounding of the product, and decoding the encoding differs
  from \<open>r\<close> by at most \<open>1 / 10\<^sup>7\<close> plus the \<open>2\<^sup>-\<^sup>2\<^sup>2\<close>-th part of \<open>r\<close>.
\<close>

theorem fixed_point_codec:
  "decodeFixedPointF32 i = roundF32 (roundF32 (real_of_int (sint i)) / 10000000) \<and>
   \<bar>decodeFixedPointF32 i - real_of_int (sint i) / 10000000\<bar>
     \<le> \<bar>real_of_int (sint i)\<bar> / 10000000 / 2 ^ 22 \<and>
   (\<bar>r * fixedPointMultiplier\<bar> < 2147483648 \<longrightarrow>
      sint (encodeFixedPointF32 r) =
        min 2147483647 (truncateReal (roundF32 (r * 10000000))) \<and>
      \<bar>real_of_int (sint (encodeFixedPointF32 r)) - r * 10000000\<bar>
        \<le> 1 + \<bar>r * 10000000\<bar> / 2 ^ 24 \<and>
      \<bar>decodeFixedPointF32 (encodeFixedPointF32 r) - r\<bar>
        \<le> 1 / fixedPointMultiplier + \<bar>r\<bar> / 2 ^ 22)"
proof (intro conjI impI)
  show "decodeFixedPointF32 i = roundF32 (roundF32 (real_of_int (sint i)) / 10000000)"
    by (simp add: decodeFixedPointF32_def toFloatF32_def fixedPointMultiplier_def)
  show "\<bar>decodeFixedPointF32 i - real_of_int (sint i) / 10000000\<bar>
     \<le> \<bar>real_of_int (sint i)\<bar> / 10000000 / 2 ^ 22"
    by (rule decodeFixedPointF32_error)
next
  assume "\<bar>r * fixedPointMultiplier\<bar> < 2147483648"
  then have a: "\<bar>r * 10000000\<bar> < 2147483648"
    by (simp add: fixedPointMultiplier_def)
  show "sint (encodeFixedPointF32 r) =
        min 2147483647 (truncateReal (roundF32 (r * 10000000)))"
    by (rule encodeFixedPointF32_bounds(1) [OF a])
  show "\<bar>real_of_int (sint (encodeFixedPointF32 r)) - r * 10000000\<bar>
        \<le> 1 + \<bar>r * 10000000\<bar> / 2 ^ 24"
    by (rule encodeFixedPointF32_bounds(2) [OF a])
  show "\<bar>decodeFixedPointF32 (encodeFixedPointF32 r) - r\<bar>
        \<le> 1 / fixedPointMultiplier + \<bar>r\<bar> / 2 ^ 22"
    using codec_round_trip [OF a] by (simp add: fixedPointMultiplier_def)
qed

theorem fixed_point_codec_witness:
  "\<bar>(3 / 4) * fixedPointMultiplier\<bar> < 2147483648 \<and>
   sint (encodeFixedPointF32 (3 / 4)) = 7500000 \<and>
   \<bar>decodeFixedPointF32 (encodeFixedPointF32 (3 / 4)) - 3 / 4\<bar>
     \<le> 1 / fixedPointMultiplier + \<bar>3 / 4\<bar> / 2 ^ 22"
proof -
  have a: "\<bar>(3 / 4) * fixedPointMultiplier\<bar> < 2147483648"
    by (simp add: fixedPointMultiplier_def)
  note A = fixed_point_codec [of _ "3 / 4", THEN conjunct2, THEN conjunct2, THEN mp, OF a]
  have "sint (encodeFixedPointF32 (3 / 4)) = 7500000"
    using A [THEN conjunct1] by (simp add: roundF32_sample truncateReal_def)
  then show ?thesis
    using a A by blast
qed

text \<open>
  Claim C2 as stated fails: at \<open>r = 2\<^sup>-\<^sup>2\<^sup>4\<close> the scaled value is about 0.596, a binary32
  number, which the conversion sends to 0 where rounding to nearest gives 1, and the round trip
  is off by more than \<open>0.5 / 10\<^sup>7\<close>, in exact arithmetic as in binary32.
\<close>

theorem encode_rounds_counterexample:
  "\<bar>(1 / 16777216) * fixedPointMultiplier\<bar> < 2147483648 \<and>
   sint (encodeFixedPoint (1 / 16777216)) = 0 \<and>
   sint (encodeFixedPointF32 (1 / 16777216)) = 0 \<and>
   round ((1 / 16777216) * fixedPointMultiplier) = 1 \<and>
   (1 / 2) / fixedPointMultiplier
     < \<bar>decodeFixedPoint (encodeFixedPoint (1 / 16777216)) - 1 / 16777216\<bar> \<and>
   (1 / 2) / fixedPointMultiplier
     < \<bar>decodeFixedPointF32 (encodeFixedPointF32 (1 / 16777216)) - 1 / 16777216\<bar>"
proof -
  have e: "encodeFixedPoint (1 / 16777216) = 0"
    by (simp add: encodeFixedPoint_def toInt_def truncateReal_def fixedPointMultiplier_def)
  have e32: "encodeFixedPointF32 (1 / 16777216) = 0"
    by (simp add: encodeFixedPointF32_def fixedPointMultiplier_def roundF32_scaled_24 toInt_def
        truncateReal_def)
  have r: "round ((1 / 16777216) * fixedPointMultiplier) = 1"
    by (simp add: round_def fixedPointMultiplier_def)
  show ?thesis
    unfolding e e32 r
    by (simp add: decodeFixedPoint_def toFloat_def decodeFixedPointF32_def toFloatF32_def
        fixedPointMultiplier_def)
qed

section \<open>Properties of the pointer force\<close>

lemma vlength_nonneg: "0 \<le> vlength v"
  by (simp add: vlength_def)





section \<open>Properties of the stencil\<close>

lemma cellXOf_eq:
  "cellXOf position (gx, gy, gz) =
     IVec3 (word_of_int (cellCoord (vec_x position) gx))
           (word_of_int (cellCoord (vec_y position) gy))
           (word_of_int (cellCoord (vec_z position) gz))"
  by (simp add: cellIndexOf_def isubs_def iadd_def ivec3_of_vec3_def gridPositionOf_def vmul_def
      gridSizeUniform_def gridSize_x_def gridSize_y_def gridSize_z_def gridSize1d_def toInt_def
      cellCoord_def)

lemma cellPtrOf_eq:
  "cellPtrOf position (gx, gy, gz) =
     word_of_int (cellCoord (vec_x position) gx * 4096 + cellCoord (vec_y position) gy * 64
       + cellCoord (vec_z position) gz)"
  unfolding cellPtrOf_def Let_def cellXOf_eq
  by (simp add: gridSize_y_def gridSize_z_def gridSize1d_def)

lemma cellCoord_interior:
  assumes "1 / 64 \<le> a" "a < 63 / 64" "g < 3"
  shows "0 \<le> cellCoord a g" "cellCoord a g < 64" "cellCoord a g = \<lfloor>a * 64\<rfloor> - 1 + int g"
proof -
  have f: "1 \<le> \<lfloor>a * 64\<rfloor>" "\<lfloor>a * 64\<rfloor> \<le> 62"
    using assms by (simp_all add: le_floor_iff floor_le_iff)
  have t: "truncateReal (a * 64) = \<lfloor>a * 64\<rfloor>"
    using assms by (simp add: truncateReal_def)
  show "cellCoord a g = \<lfloor>a * 64\<rfloor> - 1 + int g"
    using f by (simp add: cellCoord_def t)
  then show "0 \<le> cellCoord a g" "cellCoord a g < 64"
    using f assms(3) by linarith+
qed

lemma sint_cellPtr:
  assumes "0 \<le> a" "a < 64" "0 \<le> b" "b < 64" "0 \<le> c" "c < 64"
  shows "sint (word_of_int (a * 4096 + b * 64 + c) :: i32) = a * 4096 + b * 64 + c"
    "0 \<le> a * 4096 + b * 64 + c" "a * 4096 + b * 64 + c < cellCount"
proof -
  show lo: "0 \<le> a * 4096 + b * 64 + c"
    using assms by linarith
  show hi: "a * 4096 + b * 64 + c < cellCount"
    using assms by (simp add: cellCount_def gridSize_x_def gridSize_y_def gridSize_z_def
        gridSize1d_def)
  then have "a * 4096 + b * 64 + c < 262144"
    by (simp add: cellCount_def gridSize_x_def gridSize_y_def gridSize_z_def gridSize1d_def)
  with lo show "sint (word_of_int (a * 4096 + b * 64 + c) :: i32) = a * 4096 + b * 64 + c"
    by (intro sint_word_of_int_i32) linarith+
qed

lemma cell_lo: "cellCoord (1 / 128) 0 = - 1"
  by (simp add: cellCoord_def truncateReal_def)

lemma cell_hi: "cellCoord (63 / 64) 2 = 64"
  by (simp add: cellCoord_def truncateReal_def)

section \<open>The particle-to-grid kernels as scatters\<close>

lemma scatter_Nil: "scatter [] cb = cb"
  by (rule ext) (simp add: scatter_def fieldSum_def)

lemma fieldSum_append: "fieldSum f (ds @ es) c = fieldSum f ds c + fieldSum f es c"
  by (simp add: fieldSum_def)

lemma scatter_scatter: "scatter es (scatter ds cb) = scatter (ds @ es) cb"
  by (simp add: scatter_def fieldSum_append add.assoc)

lemma atomicAdd_all_scatter:
  "atomicAdd_mass c m (atomicAdd_z c z (atomicAdd_y c y (atomicAdd_x c x cb))) =
     scatter [(c, \<lparr>cell_x = x, cell_y = y, cell_z = z, cell_mass = m\<rparr>)] cb"
  by (auto simp: fun_eq_iff scatter_def fieldSum_def atomicAdd_x_def atomicAdd_y_def
      atomicAdd_z_def atomicAdd_mass_def)

lemma atomicAdd_xyz_scatter:
  "atomicAdd_z c z (atomicAdd_y c y (atomicAdd_x c x cb)) =
     scatter [(c, \<lparr>cell_x = x, cell_y = y, cell_z = z, cell_mass = 0\<rparr>)] cb"
  by (auto simp: fun_eq_iff scatter_def fieldSum_def atomicAdd_x_def atomicAdd_y_def
      atomicAdd_z_def)

lemma cellElement_inGrid:
  "cellElement ptr = (if inGrid ptr then Inr (nat (sint ptr)) else Inl OutOfBounds)"
  by (simp add: cellElement_def inGrid_def)

lemma p2g1Cell_scatter:
  "p2g1Cell p g cb =
     (if inGrid (cellPtrOf (particlePosition p) g) then Inr (scatter [p2g1Deposit p g] cb)
      else Inl OutOfBounds)"
  by (simp add: p2g1Cell_def Let_def cellElement_inGrid atomicAdd_all_scatter p2g1Deposit_def
      velContribOf_def)

lemma p2g2Cell_scatter:
  "p2g2Cell position t g cb =
     (if inGrid (cellPtrOf position g) then Inr (scatter [p2g2Deposit position t g] cb)
      else Inl OutOfBounds)"
  by (simp add: p2g2Cell_def Let_def cellElement_inGrid atomicAdd_xyz_scatter p2g2Deposit_def
      momentumOf_def)

lemma forE_p2g1Cell:
  "forE gs (p2g1Cell p) cb =
     (if list_all (\<lambda>g. inGrid (cellPtrOf (particlePosition p) g)) gs
      then Inr (scatter (map (p2g1Deposit p) gs) cb) else Inl OutOfBounds)"
proof (induction gs arbitrary: cb)
  case Nil
  show ?case by (simp add: scatter_Nil)
next
  case (Cons g gs)
  show ?case
    by (simp add: p2g1Cell_scatter [of p g cb] Cons.IH scatter_scatter)
qed

lemma forE_p2g2Cell:
  "forE gs (p2g2Cell position t) cb =
     (if list_all (\<lambda>g. inGrid (cellPtrOf position g)) gs
      then Inr (scatter (map (p2g2Deposit position t) gs) cb) else Inl OutOfBounds)"
proof (induction gs arbitrary: cb)
  case Nil
  show ?case by (simp add: scatter_Nil)
next
  case (Cons g gs)
  show ?case
    by (simp add: p2g2Cell_scatter [of position t g cb] Cons.IH scatter_scatter)
qed

lemma p2g1Kernel_scatter:
  "p2g1Kernel u pb i cb =
     (if i < particleCountUniform u \<longrightarrow> stencilInGrid (particlePosition (pb i))
      then Inr (scatter (if i < particleCountUniform u
                         then map (p2g1Deposit (pb i)) stencilOffsets else []) cb)
      else Inl OutOfBounds)"
  by (simp add: p2g1Kernel_def forE_p2g1Cell stencilInGrid_def scatter_Nil)

lemma compute_p2g1Kernel:
  "compute (p2g1Kernel u pb) is cb =
     (if list_all (\<lambda>i. i < particleCountUniform u \<longrightarrow> stencilInGrid (particlePosition (pb i))) is
      then Inr (scatter (p2g1Deposits u pb is) cb) else Inl OutOfBounds)"
  unfolding compute_def
proof (induction "is" arbitrary: cb)
  case Nil
  show ?case by (simp add: scatter_Nil p2g1Deposits_def)
next
  case (Cons i "is")
  show ?case
    by (simp add: p2g1Kernel_scatter [of u pb i cb] Cons.IH scatter_scatter p2g1Deposits_def
        scatter_Nil)
qed

lemma fieldSum_concat:
  "fieldSum f (concat (map h xs)) c = sum_list (map (\<lambda>x. fieldSum f (h x) c) xs)"
  by (induction xs) (simp_all add: fieldSum_append, simp add: fieldSum_def)

lemma fieldSum_concat_perm:
  assumes "mset xs = mset ys"
  shows "fieldSum f (concat (map h xs)) c = fieldSum f (concat (map h ys)) c"
proof -
  have "mset (map (\<lambda>x. fieldSum f (h x) c) xs) = mset (map (\<lambda>x. fieldSum f (h x) c) ys)"
    using assms by (metis mset_map)
  then have "sum_list (map (\<lambda>x. fieldSum f (h x) c) xs) = sum_list (map (\<lambda>x. fieldSum f (h x) c) ys)"
    by (metis sum_mset_sum_list)
  then show ?thesis by (simp add: fieldSum_concat)
qed

lemma scatter_concat_perm:
  assumes "mset xs = mset ys"
  shows "scatter (concat (map h xs)) cb = scatter (concat (map h ys)) cb"
  unfolding scatter_def
  by (simp add: fieldSum_concat_perm [OF assms])

lemma list_all_perm:
  assumes "mset xs = mset ys"
  shows "list_all P xs = list_all P ys"
  using assms by (metis list_all_iff mset_eq_setD)

lemma compute_p2g1Kernel_perm:
  assumes "mset is = mset js"
  shows "compute (p2g1Kernel u pb) is cb = compute (p2g1Kernel u pb) js cb"
  unfolding compute_p2g1Kernel p2g1Deposits_def
  using list_all_perm [OF assms] scatter_concat_perm [OF assms] by simp

lemma forE_p2g2DensityCell:
  "forE gs (p2g2DensityCell position cb) acc =
     (if list_all (\<lambda>g. inGrid (cellPtrOf position g)) gs
      then Inr (acc + densitySum position cb gs) else Inl OutOfBounds)"
proof (induction gs arbitrary: acc)
  case Nil
  show ?case by (simp add: densitySum_def)
next
  case (Cons g gs)
  have step: "p2g2DensityCell position cb g acc =
     (if inGrid (cellPtrOf position g)
      then Inr (acc + decodeFixedPoint (cell_mass (cb (nat (sint (cellPtrOf position g)))))
                        * weightOf position g)
      else Inl OutOfBounds)"
    by (simp add: p2g2DensityCell_def Let_def cellElement_inGrid)
  show ?case
    by (simp add: step Cons.IH) (simp add: densitySum_def)
qed

lemma p2g2Density_eq:
  "p2g2Density position cb =
     (if stencilInGrid position then Inr (densitySum position cb stencilOffsets)
      else Inl OutOfBounds)"
  by (simp add: p2g2Density_def forE_p2g2DensityCell stencilInGrid_def)

lemma p2g2Kernel_scatter:
  "p2g2Kernel u pb i cb =
     (if i < particleCountUniform u then
        (if \<not> stencilInGrid (particlePosition (pb i)) then Inl OutOfBounds
         else if densitySum (particlePosition (pb i)) cb stencilOffsets = 0 then Inl DivisionByZero
         else Inr (scatter (p2g2Deposits u pb cb [i]) cb))
      else Inr cb)"
  by (simp add: p2g2Kernel_def Let_def p2g2Density_eq forE_p2g2Cell p2g2Deposits_def
      flip: stencilInGrid_def)

lemma p2g2Kernel_ready:
  "p2g2Ready u pb cb i \<Longrightarrow> p2g2Kernel u pb i cb = Inr (scatter (p2g2Deposits u pb cb [i]) cb)"
  by (simp add: p2g2Kernel_scatter p2g2Ready_def p2g2Deposits_def scatter_Nil)

lemma p2g2Kernel_not_ready:
  "\<not> p2g2Ready u pb cb i \<Longrightarrow> \<exists>e. p2g2Kernel u pb i cb = Inl e"
  by (auto simp: p2g2Kernel_scatter p2g2Ready_def)

lemma fieldSum_mass_zero:
  assumes "\<forall>d\<in>set ds. cell_mass (snd d) = 0"
  shows "fieldSum cell_mass ds c = 0"
  using assms unfolding fieldSum_def by (induction ds) auto

lemma p2g2Deposits_mass: "\<forall>d\<in>set (p2g2Deposits u pb cb is). cell_mass (snd d) = 0"
  by (auto simp: p2g2Deposits_def p2g2Deposit_def split: if_splits)

lemma scatter_p2g2_mass:
  "cell_mass (scatter (p2g2Deposits u pb cb is) cb' c) = cell_mass (cb' c)"
  by (simp add: scatter_def fieldSum_mass_zero [OF p2g2Deposits_mass])

lemma densitySum_cong:
  assumes "\<forall>c. cell_mass (cb1 c) = cell_mass (cb c)"
  shows "densitySum position cb1 gs = densitySum position cb gs"
  by (simp add: densitySum_def assms)

lemma p2g2Deposits_cong:
  assumes "\<forall>c. cell_mass (cb1 c) = cell_mass (cb c)"
  shows "p2g2Deposits u pb cb1 is = p2g2Deposits u pb cb is"
  unfolding p2g2Deposits_def densitySum_cong [of cb1 cb, OF assms] ..

lemma p2g2Ready_cong:
  assumes "\<forall>c. cell_mass (cb1 c) = cell_mass (cb c)"
  shows "p2g2Ready u pb cb1 = p2g2Ready u pb cb"
  unfolding p2g2Ready_def densitySum_cong [of cb1 cb, OF assms] ..

lemma p2g2Deposits_Cons:
  "p2g2Deposits u pb cb (i # is) = p2g2Deposits u pb cb [i] @ p2g2Deposits u pb cb is"
  by (simp add: p2g2Deposits_def)

lemma compute_p2g2Kernel_ready:
  assumes "list_all (p2g2Ready u pb cb) is"
  shows "compute (p2g2Kernel u pb) is cb = Inr (scatter (p2g2Deposits u pb cb is) cb)"
  using assms unfolding compute_def
proof (induction "is" arbitrary: cb)
  case Nil
  show ?case by (simp add: scatter_Nil p2g2Deposits_def)
next
  case (Cons i "is")
  let ?cb1 = "scatter (p2g2Deposits u pb cb [i]) cb"
  have m: "\<forall>c. cell_mass (?cb1 c) = cell_mass (cb c)"
    by (simp add: scatter_p2g2_mass)
  have k: "p2g2Kernel u pb i cb = Inr ?cb1"
    using Cons.prems by (simp add: p2g2Kernel_ready)
  have r: "list_all (p2g2Ready u pb ?cb1) is"
    using Cons.prems by (simp add: p2g2Ready_cong [of ?cb1 cb, OF m])
  show ?case
    by (simp add: k Cons.IH [OF r] p2g2Deposits_cong [of ?cb1 cb, OF m] scatter_scatter
        p2g2Deposits_Cons [of u pb cb i "is"])
qed

lemma compute_p2g2Kernel_not_ready:
  assumes "\<not> list_all (p2g2Ready u pb cb) is"
  shows "\<exists>e. compute (p2g2Kernel u pb) is cb = Inl e"
  using assms unfolding compute_def
proof (induction "is" arbitrary: cb)
  case Nil
  then show ?case by simp
next
  case (Cons i "is")
  show ?case
  proof (cases "p2g2Ready u pb cb i")
    case False
    then obtain e where "p2g2Kernel u pb i cb = Inl e"
      using p2g2Kernel_not_ready by blast
    then show ?thesis by simp
  next
    case True
    let ?cb1 = "scatter (p2g2Deposits u pb cb [i]) cb"
    have m: "\<forall>c. cell_mass (?cb1 c) = cell_mass (cb c)"
      by (simp add: scatter_p2g2_mass)
    have k: "p2g2Kernel u pb i cb = Inr ?cb1"
      using True by (simp add: p2g2Kernel_ready)
    have "\<not> list_all (p2g2Ready u pb ?cb1) is"
      using Cons.prems True by (simp add: p2g2Ready_cong [of ?cb1 cb, OF m])
    then show ?thesis
      using Cons.IH [of ?cb1] by (simp add: k)
  qed
qed

lemma compute_p2g2Kernel_perm:
  assumes "mset is = mset js"
  shows "finalAccumulators (compute (p2g2Kernel u pb) is cb) =
         finalAccumulators (compute (p2g2Kernel u pb) js cb)"
proof (cases "list_all (p2g2Ready u pb cb) is")
  case True
  then have "list_all (p2g2Ready u pb cb) js"
    using list_all_perm [OF assms] by simp
  with True show ?thesis
    using scatter_concat_perm [OF assms]
    by (simp add: compute_p2g2Kernel_ready p2g2Deposits_def)
next
  case False
  then have "\<not> list_all (p2g2Ready u pb cb) js"
    using list_all_perm [OF assms] by simp
  with False show ?thesis
    using compute_p2g2Kernel_not_ready [of u pb cb "is"] compute_p2g2Kernel_not_ready [of u pb cb js]
    by (auto simp: finalAccumulators_def)
qed

text \<open>The clear dispatch over all cells leaves every mass accumulator of the grid at zero.\<close>

lemma forE_append:
  "forE (xs @ ys) body s = (case forE xs body s of Inl e \<Rightarrow> Inl e | Inr s' \<Rightarrow> forE ys body s')"
  by (induction xs arbitrary: s) (simp_all split: sum.splits)

lemma forE_clearGridKernel:
  "\<exists>cb'. forE [0..<n] clearGridKernel cb = Inr cb' \<and>
     (\<forall>c. c < n \<and> int c < cellCount \<longrightarrow> cell_mass (cb' c) = 0)"
proof (induction n)
  case 0
  show ?case by simp
next
  case (Suc n)
  then obtain cb1 where r: "forE [0..<n] clearGridKernel cb = Inr cb1"
    and z: "\<forall>c. c < n \<and> int c < cellCount \<longrightarrow> cell_mass (cb1 c) = 0"
    by blast
  have step: "forE [0..<Suc n] clearGridKernel cb = clearGridKernel n cb1"
    by (simp add: forE_append r split: sum.splits)
  show ?case
    unfolding step using z by (auto simp: clearGridKernel_def less_Suc_eq)
qed

lemma compute_clearGridKernel:
  "\<exists>cb'. compute clearGridKernel [0..<nat cellCount] cb = Inr cb' \<and> massCleared cb'"
proof -
  obtain cb' where r: "forE [0..<nat cellCount] clearGridKernel cb = Inr cb'"
    and z: "\<forall>c. c < nat cellCount \<and> int c < cellCount \<longrightarrow> cell_mass (cb' c) = 0"
    using forE_clearGridKernel [of "nat cellCount" cb] by blast
  have "massCleared cb'"
    unfolding massCleared_def using z by auto
  then show ?thesis
    using r by (simp add: compute_def)
qed

section \<open>The B-spline weights\<close>

lemma stencilOffsets_product:
  fixes a b c :: "nat \<Rightarrow> real"
  shows "sum_list (map (\<lambda>g. case g of (gx, gy, gz) \<Rightarrow> a gx * b gy * c gz) stencilOffsets) =
     (a 0 + a 1 + a 2) * (b 0 + b 1 + b 2) * (c 0 + c 1 + c 2)"
  by (simp add: stencilOffsets_def algebra_simps)

lemma set_triples:
  "set (concat (map (\<lambda>x. concat (map (\<lambda>y. map (\<lambda>z. (x, y, z)) zs) ys)) xs)) =
     set xs \<times> set ys \<times> set zs"
  by auto

lemma set_stencilOffsets:
  "g \<in> set stencilOffsets \<longleftrightarrow> fst g < 3 \<and> fst (snd g) < 3 \<and> snd (snd g) < 3"
proof -
  have s: "set [0, 1, 2] = {n::nat. n < 3}"
    by auto
  obtain gx gy gz where g: "g = (gx, gy, gz)"
    by (cases g) auto
  show ?thesis
    unfolding stencilOffsets_def set_triples s g by simp
qed

lemma weightsOf_nth:
  assumes "g < 3"
  shows "vec_x (weightsOf position ! g) = axisWeight (vec_x position) g"
    and "vec_y (weightsOf position ! g) = axisWeight (vec_y position) g"
    and "vec_z (weightsOf position ! g) = axisWeight (vec_z position) g"
proof -
  have n: "g = 0 \<or> g = 1 \<or> g = 2"
    using assms by auto
  have nth: "\<And>(a::vec3) b c. [a, b, c] ! 2 = c"
    by (simp add: numeral_2_eq_2)
  note defs = weightsOf_def Let_def cellDiffOf_def gridPositionOf_def gridSizeUniform_def
        gridSize_x_def gridSize_y_def gridSize_z_def gridSize1d_def vmul_def vsub_def vadd_def
        vscale_def vsplat_def vfract_def axisWeight_def nth
  show "vec_x (weightsOf position ! g) = axisWeight (vec_x position) g"
    using n by (elim disjE) (simp_all add: defs)
  show "vec_y (weightsOf position ! g) = axisWeight (vec_y position) g"
    using n by (elim disjE) (simp_all add: defs)
  show "vec_z (weightsOf position ! g) = axisWeight (vec_z position) g"
    using n by (elim disjE) (simp_all add: defs)
qed

lemma weightOf_axis:
  assumes "gx < 3" "gy < 3" "gz < 3"
  shows "weightOf position (gx, gy, gz) =
     axisWeight (vec_x position) gx * axisWeight (vec_y position) gy * axisWeight (vec_z position) gz"
  by (simp add: weightsOf_nth assms)

lemma axisWeight_sum: "axisWeight a 0 + axisWeight a 1 + axisWeight a 2 = 1"
  by (simp add: axisWeight_def Let_def algebra_simps)

lemma axisWeight_bounds:
  "0 \<le> axisWeight a g" "axisWeight a g \<le> 1" "1 / 2 \<le> axisWeight a 1"
proof -
  define d where "d = frac (a * 64) - 1 / 2"
  have d: "- (1 / 2) \<le> d" "d < 1 / 2"
    using frac_ge_0 [of "a * 64"] frac_lt_1 [of "a * 64"] by (simp_all add: d_def)
  have dd: "d * d \<le> 1 / 4"
  proof -
    have "0 \<le> (1 / 2 - d) * (1 / 2 + d)"
      using d by (intro mult_nonneg_nonneg) simp_all
    then show ?thesis by (simp add: algebra_simps)
  qed
  have sq: "0 \<le> d * d" by simp
  have w0: "0 \<le> (1 / 2 - d) * (1 / 2) * (1 / 2 - d)"
    by (simp add: mult.commute mult.left_commute)
  have w2: "0 \<le> (1 / 2 + d) * (1 / 2) * (1 / 2 + d)"
    by (simp add: mult.commute mult.left_commute)
  have e0: "(1 / 2 - d) * (1 / 2) * (1 / 2 - d) = 1 / 8 - d / 2 + d * d / 2"
    by (simp add: algebra_simps)
  have e2: "(1 / 2 + d) * (1 / 2) * (1 / 2 + d) = 1 / 8 + d / 2 + d * d / 2"
    by (simp add: algebra_simps)
  have w1: "1 / 2 \<le> 3 / 4 - d * d"
    using dd by linarith
  show "1 / 2 \<le> axisWeight a 1"
    unfolding axisWeight_def Let_def d_def [symmetric] using w1 by simp
  have "0 \<le> 3 / 4 - d * d"
    using w1 by linarith
  then show "0 \<le> axisWeight a g"
    unfolding axisWeight_def Let_def d_def [symmetric] using w0 w2 by simp
  have "1 / 8 - d / 2 + d * d / 2 \<le> 1" "3 / 4 - d * d \<le> 1" "1 / 8 + d / 2 + d * d / 2 \<le> 1"
    using dd d sq by linarith+
  then show "axisWeight a g \<le> 1"
    unfolding axisWeight_def Let_def d_def [symmetric] e0 e2 by simp
qed

lemma weightOf_sum: "sum_list (map (weightOf position) stencilOffsets) = 1"
proof -
  have "weightOf position g = (case g of (gx, gy, gz) \<Rightarrow>
        axisWeight (vec_x position) gx * axisWeight (vec_y position) gy
          * axisWeight (vec_z position) gz)" if "g \<in> set stencilOffsets" for g
  proof -
    obtain gx gy gz where g: "g = (gx, gy, gz)" by (cases g) auto
    have lt: "gx < 3" "gy < 3" "gz < 3"
      using that by (simp_all add: set_stencilOffsets g)
    show ?thesis
      unfolding g weightOf_axis [OF lt] by simp
  qed
  then have eq: "map (weightOf position) stencilOffsets =
      map (\<lambda>g. case g of (gx, gy, gz) \<Rightarrow>
        axisWeight (vec_x position) gx * axisWeight (vec_y position) gy
          * axisWeight (vec_z position) gz) stencilOffsets"
    by (intro map_cong [OF refl])
  show ?thesis
    unfolding eq stencilOffsets_product axisWeight_sum by simp
qed

lemma weightOf_bounds:
  assumes "g \<in> set stencilOffsets"
  shows "0 \<le> weightOf position g" "weightOf position g \<le> 1"
proof -
  obtain gx gy gz where g: "g = (gx, gy, gz)" by (cases g) auto
  have lt: "gx < 3" "gy < 3" "gz < 3"
    using assms by (simp_all add: set_stencilOffsets g)
  note b = axisWeight_bounds
  show "0 \<le> weightOf position g"
    unfolding g weightOf_axis [OF lt] by (intro mult_nonneg_nonneg b)
  have "axisWeight (vec_x position) gx * axisWeight (vec_y position) gy \<le> 1 * 1"
    by (intro mult_mono b) simp
  then have "axisWeight (vec_x position) gx * axisWeight (vec_y position) gy
      * axisWeight (vec_z position) gz \<le> 1 * 1"
    by (intro mult_mono b mult_nonneg_nonneg) simp_all
  then show "weightOf position g \<le> 1"
    unfolding g weightOf_axis [OF lt] by simp
qed

lemma weightOf_centre: "1 / 8 \<le> weightOf position (1, 1, 1)"
proof -
  define wx where "wx = axisWeight (vec_x position) 1"
  define wy where "wy = axisWeight (vec_y position) 1"
  define wz where "wz = axisWeight (vec_z position) 1"
  have b: "1 / 2 \<le> wx" "1 / 2 \<le> wy" "1 / 2 \<le> wz"
    unfolding wx_def wy_def wz_def by (rule axisWeight_bounds(3))+
  have "1 / 2 * (1 / 2) \<le> wx * wy"
    using b by (intro mult_mono) simp_all
  then have "1 / 2 * (1 / 2) * (1 / 2) \<le> wx * wy * wz"
    using b by (intro mult_mono) simp_all
  moreover have "weightOf position (1, 1, 1) = wx * wy * wz"
    unfolding wx_def wy_def wz_def by (rule weightOf_axis) simp_all
  ultimately show ?thesis by simp
qed

section \<open>Deposited mass\<close>

lemma sint_encode_weight:
  assumes "0 \<le> w" "w \<le> 1"
  shows "sint (encodeFixedPoint w) = \<lfloor>w * 10000000\<rfloor>"
proof -
  have "\<bar>w * fixedPointMultiplier\<bar> < 2147483648"
    using assms by (simp add: fixedPointMultiplier_def abs_if)
  then have "sint (encodeFixedPoint w) = truncateReal (w * fixedPointMultiplier)"
    unfolding encodeFixedPoint_def by (rule sint_toInt)
  then show ?thesis
    using assms by (simp add: truncateReal_def fixedPointMultiplier_def)
qed

lemma encode_weight_bounds:
  assumes "0 \<le> w" "w \<le> 1"
  shows "0 \<le> sint (encodeFixedPoint w)"
    and "real_of_int (sint (encodeFixedPoint w)) \<le> w * 10000000"
    and "w * 10000000 - 1 < real_of_int (sint (encodeFixedPoint w))"
  unfolding sint_encode_weight [OF assms] using assms by (simp_all; linarith)+

lemma decode_sint: "decodeFixedPoint v = real_of_int (sint v) / 10000000"
  by (simp add: decodeFixedPoint_def toFloat_def fixedPointMultiplier_def)

lemma fieldSum_exactMass: "fieldSum cell_mass ds c = word_of_int (exactMass ds c)"
  by (induction ds) (simp_all add: fieldSum_def exactMass_def)

lemma exactMass_Cons:
  "exactMass (d # ds) c = (if fst d = c then sint (cell_mass (snd d)) else 0) + exactMass ds c"
  by (simp add: exactMass_def)

lemma exactMass_append: "exactMass (ds @ es) c = exactMass ds c + exactMass es c"
  by (simp add: exactMass_def)

lemma exactMass_nonneg:
  assumes "\<forall>d\<in>set ds. 0 \<le> sint (cell_mass (snd d))"
  shows "0 \<le> exactMass ds c"
  using assms by (induction ds) (simp_all add: exactMass_Cons, simp add: exactMass_def)

lemma exactMass_member:
  assumes "\<forall>d\<in>set ds. 0 \<le> sint (cell_mass (snd d))" "d \<in> set ds"
  shows "sint (cell_mass (snd d)) \<le> exactMass ds (fst d)"
  using assms
proof (induction ds)
  case Nil
  then show ?case by simp
next
  case (Cons e ds)
  have n: "0 \<le> exactMass ds (fst d)"
    using Cons.prems(1) by (intro exactMass_nonneg) simp
  show ?case
  proof (cases "d = e")
    case True
    then show ?thesis using n by (simp add: exactMass_Cons)
  next
    case False
    then have "sint (cell_mass (snd d)) \<le> exactMass ds (fst d)"
      using Cons by simp
    moreover have "0 \<le> sint (cell_mass (snd e))"
      using Cons.prems(1) by simp
    ultimately show ?thesis by (simp add: exactMass_Cons)
  qed
qed

lemma sum_list_delta:
  fixes m :: int
  shows "sum_list (map (\<lambda>c. if k = c then m else 0) [0..<n]) = (if k < n then m else 0)"
  by (induction n) simp_all

lemma exactMass_total:
  assumes "\<forall>d\<in>set ds. fst d < n"
  shows "sum_list (map (exactMass ds) [0..<n]) = sum_list (map (\<lambda>d. sint (cell_mass (snd d))) ds)"
  using assms
proof (induction ds)
  case Nil
  show ?case by (simp add: exactMass_def)
next
  case (Cons d ds)
  have "sum_list (map (exactMass (d # ds)) [0..<n]) =
      sum_list (map (\<lambda>c. if fst d = c then sint (cell_mass (snd d)) else 0) [0..<n])
      + sum_list (map (exactMass ds) [0..<n])"
    unfolding exactMass_Cons sum_list_addf ..
  also have "\<dots> = sint (cell_mass (snd d)) + sum_list (map (\<lambda>d. sint (cell_mass (snd d))) ds)"
    using Cons by (simp add: sum_list_delta)
  finally show ?case by simp
qed

lemma sum_list_bounds:
  fixes f :: "'a \<Rightarrow> real"
  assumes "\<forall>x\<in>set xs. lo \<le> f x \<and> f x \<le> hi"
  shows "real (length xs) * lo \<le> sum_list (map f xs)" "sum_list (map f xs) \<le> real (length xs) * hi"
  using assms by (induction xs) (auto simp: algebra_simps)

lemma p2g1Deposits_member:
  assumes "d \<in> set (p2g1Deposits u pb is)"
  obtains i g where "i \<in> set is" "i < particleCountUniform u" "g \<in> set stencilOffsets"
    "d = p2g1Deposit (pb i) g"
  using assms by (auto simp: p2g1Deposits_def split: if_splits)

lemma stencilInGrid_member:
  assumes "stencilInGrid position" "g \<in> set stencilOffsets"
  shows "inGrid (cellPtrOf position g)"
  using assms by (simp add: stencilInGrid_def list_all_iff)

lemma p2g1Deposits_wellformed:
  assumes ok: "list_all (\<lambda>i. i < particleCountUniform u \<longrightarrow> stencilInGrid (particlePosition (pb i))) is"
    and d: "d \<in> set (p2g1Deposits u pb is)"
  shows "int (fst d) < cellCount" "0 \<le> sint (cell_mass (snd d))"
proof -
  from d obtain i g where i: "i \<in> set is" "i < particleCountUniform u"
    and g: "g \<in> set stencilOffsets" and e: "d = p2g1Deposit (pb i) g"
    by (rule p2g1Deposits_member)
  have "stencilInGrid (particlePosition (pb i))"
    using ok i by (simp add: list_all_iff)
  then have "inGrid (cellPtrOf (particlePosition (pb i)) g)"
    using g by (rule stencilInGrid_member)
  then show "int (fst d) < cellCount"
    by (simp add: e p2g1Deposit_def inGrid_def)
  show "0 \<le> sint (cell_mass (snd d))"
    using weightOf_bounds [OF g] by (simp add: e p2g1Deposit_def encode_weight_bounds(1))
qed

lemma p2g1Deposits_total:
  "sum_list (map (\<lambda>d. sint (cell_mass (snd d))) (p2g1Deposits u pb is)) =
     sum_list (map (\<lambda>i. particleMass (pb i)) (filter (\<lambda>i. i < particleCountUniform u) is))"
proof (induction "is")
  case Nil
  show ?case by (simp add: p2g1Deposits_def)
next
  case (Cons i "is")
  have one: "sum_list (map (\<lambda>d. sint (cell_mass (snd d))) (map (p2g1Deposit (pb i)) stencilOffsets))
      = particleMass (pb i)"
    by (simp add: particleMass_def p2g1Deposit_def comp_def)
  have split: "p2g1Deposits u pb (i # is) =
      (if i < particleCountUniform u then map (p2g1Deposit (pb i)) stencilOffsets else [])
      @ p2g1Deposits u pb is"
    by (simp add: p2g1Deposits_def)
  show ?case
    unfolding split using Cons.IH one by simp
qed

lemma length_stencilOffsets: "length stencilOffsets = 27"
  by (simp add: stencilOffsets_def)

lemma real_of_int_sum_list:
  "real_of_int (sum_list (map f xs)) = sum_list (map (\<lambda>x. real_of_int (f x)) xs)"
  by (induction xs) simp_all

lemma particleMass_bounds:
  "10000000 - 27 \<le> real_of_int (particleMass p)" "real_of_int (particleMass p) \<le> 10000000"
proof -
  let ?w = "weightOf (particlePosition p)"
  let ?e = "\<lambda>g. real_of_int (sint (encodeFixedPoint (?w g)))"
  have r: "real_of_int (particleMass p) = sum_list (map ?e stencilOffsets)"
    by (simp add: particleMass_def real_of_int_sum_list)
  have up: "sum_list (map ?e stencilOffsets) \<le> sum_list (map (\<lambda>g. ?w g * 10000000) stencilOffsets)"
    by (intro sum_list_mono encode_weight_bounds(2) weightOf_bounds)
  have lo: "sum_list (map (\<lambda>g. ?w g * 10000000 - 1) stencilOffsets) \<le> sum_list (map ?e stencilOffsets)"
    by (intro sum_list_mono less_imp_le encode_weight_bounds(3) weightOf_bounds)
  have s1: "sum_list (map (\<lambda>g. ?w g * 10000000) stencilOffsets) = 10000000"
    using weightOf_sum [of "particlePosition p"] by (simp add: sum_list_mult_const)
  have s2: "sum_list (map (\<lambda>g. ?w g * 10000000 - 1) stencilOffsets) = 10000000 - 27"
    using s1 by (simp add: sum_list_subtractf sum_list_triv length_stencilOffsets)
  show "10000000 - 27 \<le> real_of_int (particleMass p)"
    using lo unfolding r s2 .
  show "real_of_int (particleMass p) \<le> 10000000"
    using up unfolding r s1 .
qed

lemma sum_list_divide_const:
  fixes f :: "'a \<Rightarrow> real"
  shows "sum_list (map (\<lambda>x. f x / k) xs) = sum_list (map f xs) / k"
  by (induction xs) (simp_all add: add_divide_distrib)

lemma compute_p2g1Kernel_Inr:
  assumes "compute (p2g1Kernel u pb) is cb0 = Inr cb"
  shows "list_all (\<lambda>i. i < particleCountUniform u \<longrightarrow> stencilInGrid (particlePosition (pb i))) is"
    and "cb = scatter (p2g1Deposits u pb is) cb0"
  using assms unfolding compute_p2g1Kernel by (simp_all split: if_splits)

lemma p2g1_mass_exact:
  assumes cleared: "massCleared cb0"
    and run: "compute (p2g1Kernel u pb) is cb0 = Inr cb"
    and fits: "\<forall>c. exactMass (p2g1Deposits u pb is) c < 2147483648"
    and c: "int c < cellCount"
  shows "sint (cell_mass (cb c)) = exactMass (p2g1Deposits u pb is) c"
proof -
  let ?D = "p2g1Deposits u pb is"
  note r = compute_p2g1Kernel_Inr [OF run]
  have nn: "\<forall>d\<in>set ?D. 0 \<le> sint (cell_mass (snd d))"
    using p2g1Deposits_wellformed(2) [OF r(1)] by blast
  have lo: "0 \<le> exactMass ?D c"
    by (rule exactMass_nonneg [OF nn])
  have hi: "exactMass ?D c \<le> 2147483647"
    using fits [rule_format, of c] by simp
  have "cell_mass (cb c) = word_of_int (exactMass ?D c)"
    using cleared c by (simp add: r(2) scatter_def fieldSum_exactMass massCleared_def)
  then show ?thesis
    using lo hi by (simp add: sint_word_of_int_i32)
qed

lemma p2g1_totalMass:
  assumes cleared: "massCleared cb0"
    and run: "compute (p2g1Kernel u pb) is cb0 = Inr cb"
    and fits: "\<forall>c. exactMass (p2g1Deposits u pb is) c < 2147483648"
  shows "totalMass cb =
     real_of_int (sum_list (map (\<lambda>i. particleMass (pb i))
       (filter (\<lambda>i. i < particleCountUniform u) is))) / 10000000"
proof -
  let ?D = "p2g1Deposits u pb is"
  note r = compute_p2g1Kernel_Inr [OF run]
  have eq: "map (\<lambda>c. decodeFixedPoint (cell_mass (cb c))) [0..<nat cellCount] =
      map (\<lambda>c. real_of_int (exactMass ?D c) / 10000000) [0..<nat cellCount]"
  proof (rule map_cong [OF refl])
    fix c assume "c \<in> set [0..<nat cellCount]"
    then have "int c < cellCount" by simp
    then show "decodeFixedPoint (cell_mass (cb c)) = real_of_int (exactMass ?D c) / 10000000"
      by (simp add: decode_sint p2g1_mass_exact [OF cleared run fits])
  qed
  have "totalMass cb = real_of_int (sum_list (map (exactMass ?D) [0..<nat cellCount])) / 10000000"
    unfolding totalMass_def eq sum_list_divide_const real_of_int_sum_list ..
  moreover have "\<forall>d\<in>set ?D. fst d < nat cellCount"
  proof
    fix d assume "d \<in> set ?D"
    then have "int (fst d) < cellCount"
      by (rule p2g1Deposits_wellformed(1) [OF r(1)])
    then show "fst d < nat cellCount" by linarith
  qed
  ultimately show ?thesis
    by (simp add: exactMass_total p2g1Deposits_total)
qed

lemma stencilInGrid_interior:
  assumes "1 / 64 \<le> vec_x position" "vec_x position < 63 / 64"
    and "1 / 64 \<le> vec_y position" "vec_y position < 63 / 64"
    and "1 / 64 \<le> vec_z position" "vec_z position < 63 / 64"
  shows "stencilInGrid position"
  unfolding stencilInGrid_def list_all_iff
proof
  fix g assume m: "g \<in> set stencilOffsets"
  obtain gx gy gz where g: "g = (gx, gy, gz)"
    by (cases g) auto
  have lt: "gx < 3" "gy < 3" "gz < 3"
    using m by (simp_all add: set_stencilOffsets g)
  note x = cellCoord_interior [OF assms(1,2) lt(1)]
  note y = cellCoord_interior [OF assms(3,4) lt(2)]
  note z = cellCoord_interior [OF assms(5,6) lt(3)]
  note s = sint_cellPtr [OF x(1,2) y(1,2) z(1,2)]
  show "inGrid (cellPtrOf position g)"
    unfolding g cellPtrOf_eq inGrid_def s(1) using s(2,3) by simp
qed

text \<open>
  A dispatch of \<^verbatim>\<open>p2g1Kernel\<close> runs without an error when every active particle it covers is
  at least one cell away from the lower faces of the domain and more than one cell away from the
  upper faces.
\<close>

lemma compute_p2g1Kernel_interior:
  assumes "\<forall>i\<in>set is. i < particleCountUniform u \<longrightarrow>
      1 / 64 \<le> vec_x (particlePosition (pb i)) \<and> vec_x (particlePosition (pb i)) < 63 / 64 \<and>
      1 / 64 \<le> vec_y (particlePosition (pb i)) \<and> vec_y (particlePosition (pb i)) < 63 / 64 \<and>
      1 / 64 \<le> vec_z (particlePosition (pb i)) \<and> vec_z (particlePosition (pb i)) < 63 / 64"
  shows "compute (p2g1Kernel u pb) is cb = Inr (scatter (p2g1Deposits u pb is) cb)"
proof -
  have "list_all (\<lambda>i. i < particleCountUniform u \<longrightarrow> stencilInGrid (particlePosition (pb i))) is"
    unfolding list_all_iff using assms by (auto intro: stencilInGrid_interior)
  then show ?thesis
    by (simp add: compute_p2g1Kernel)
qed

lemma exactMass_le_total:
  assumes "\<forall>d\<in>set ds. 0 \<le> sint (cell_mass (snd d))"
  shows "exactMass ds c \<le> sum_list (map (\<lambda>d. sint (cell_mass (snd d))) ds)"
  using assms by (induction ds) (simp_all add: exactMass_Cons, simp add: exactMass_def)

lemma p2g1_exactMass_bound:
  assumes ok: "list_all (\<lambda>i. i < particleCountUniform u \<longrightarrow> stencilInGrid (particlePosition (pb i))) is"
  shows "real_of_int (exactMass (p2g1Deposits u pb is) c) \<le> real (activeCount u is) * 10000000"
proof -
  let ?D = "p2g1Deposits u pb is"
  let ?act = "filter (\<lambda>i. i < particleCountUniform u) is"
  have nn: "\<forall>d\<in>set ?D. 0 \<le> sint (cell_mass (snd d))"
    using p2g1Deposits_wellformed(2) [OF ok] by blast
  have "exactMass ?D c \<le> sum_list (map (\<lambda>i. particleMass (pb i)) ?act)"
    using exactMass_le_total [OF nn, of c] by (simp add: p2g1Deposits_total)
  then have "real_of_int (exactMass ?D c)
      \<le> sum_list (map (\<lambda>i. real_of_int (particleMass (pb i))) ?act)"
    unfolding real_of_int_sum_list [symmetric] by linarith
  also have "\<dots> \<le> real (length ?act) * 10000000"
    by (rule sum_list_bounds(2) [where lo = "10000000 - 27"])
      (intro ballI conjI particleMass_bounds)
  finally show ?thesis
    by (simp add: activeCount_def)
qed

lemma centred_stencilInGrid: "stencilInGrid (particlePosition (centredParticles i))"
  by (rule stencilInGrid_interior) (simp_all add: centredParticles_def)

lemma centred_ok:
  "list_all (\<lambda>i. i < particleCountUniform setupUniforms \<longrightarrow>
      stencilInGrid (particlePosition (centredParticles i))) is"
  by (simp add: list_all_iff centred_stencilInGrid)

lemma centred_run:
  "compute (p2g1Kernel setupUniforms centredParticles) is zeroCells =
     Inr (scatter (p2g1Deposits setupUniforms centredParticles is) zeroCells)"
  by (simp add: compute_p2g1Kernel centred_ok)

lemma centred_fits:
  assumes "length is \<le> 200"
  shows "exactMass (p2g1Deposits setupUniforms centredParticles is) c < 2147483648"
proof -
  have "activeCount setupUniforms is \<le> length is"
    by (simp add: activeCount_def)
  then have "real (activeCount setupUniforms is) * 10000000 \<le> 200 * 10000000"
    using assms by simp
  then have "real_of_int (exactMass (p2g1Deposits setupUniforms centredParticles is) c)
      \<le> 2000000000"
    using p2g1_exactMass_bound [OF centred_ok, of "is" c] by linarith
  then show ?thesis by linarith
qed

lemma massCleared_zeroCells: "massCleared zeroCells"
  by (simp add: massCleared_def zeroCells_def)

lemma sum_list_member_le:
  fixes f :: "'a \<Rightarrow> real"
  assumes "\<forall>x\<in>set xs. 0 \<le> f x" "y \<in> set xs"
  shows "f y \<le> sum_list (map f xs)"
  using assms
proof (induction xs)
  case Nil
  then show ?case by simp
next
  case (Cons x xs)
  have n: "0 \<le> sum_list (map f xs)"
    using Cons.prems(1) by (intro sum_list_nonneg) auto
  show ?case
  proof (cases "y = x")
    case True
    then show ?thesis using n by simp
  next
    case False
    then have "f y \<le> sum_list (map f xs)"
      using Cons by simp
    moreover have "0 \<le> f x"
      using Cons.prems(1) by simp
    ultimately show ?thesis by simp
  qed
qed

lemma decode_nonneg: "0 \<le> sint v \<Longrightarrow> 0 \<le> decodeFixedPoint v"
  unfolding decode_sint by (simp del: of_int_sint)

lemma decode_mono: "sint a \<le> sint b \<Longrightarrow> decodeFixedPoint a \<le> decodeFixedPoint b"
  unfolding decode_sint by (simp del: of_int_sint add: divide_right_mono)

lemma ownDensity_pos: "1 / 64 \<le> ownDensity position"
proof -
  let ?t = "\<lambda>g. decodeFixedPoint (encodeFixedPoint (weightOf position g)) * weightOf position g"
  have nn: "\<forall>g\<in>set stencilOffsets. 0 \<le> ?t g"
  proof
    fix g assume g: "g \<in> set stencilOffsets"
    note w = weightOf_bounds [OF g, of position]
    have "0 \<le> decodeFixedPoint (encodeFixedPoint (weightOf position g))"
      by (rule decode_nonneg [OF encode_weight_bounds(1) [OF w]])
    then show "0 \<le> ?t g"
      using w(1) by simp
  qed
  have c: "(1, 1, 1) \<in> set stencilOffsets"
    by (simp add: set_stencilOffsets)
  note w = weightOf_bounds [OF c, of position]
  have w8: "1 / 8 \<le> weightOf position (1, 1, 1)"
    by (rule weightOf_centre)
  have "1250000 \<le> \<lfloor>weightOf position (1, 1, 1) * 10000000\<rfloor>"
    using w8 by (simp add: le_floor_iff)
  then have "1250000 \<le> real_of_int (sint (encodeFixedPoint (weightOf position (1, 1, 1))))"
    unfolding sint_encode_weight [OF w] by linarith
  then have "1 / 8 \<le> decodeFixedPoint (encodeFixedPoint (weightOf position (1, 1, 1)))"
    unfolding decode_sint by linarith
  then have "1 / 8 * (1 / 8) \<le> ?t (1, 1, 1)"
    using w8 by (intro mult_mono) simp_all
  also have "\<dots> \<le> ownDensity position"
    unfolding ownDensity_def by (rule sum_list_member_le [OF nn c])
  finally show ?thesis by simp
qed

lemma p2g1_own_mass:
  assumes cleared: "massCleared cb0"
    and run: "compute (p2g1Kernel u pb) is cb0 = Inr cb1"
    and fits: "\<forall>c. exactMass (p2g1Deposits u pb is) c < 2147483648"
    and i: "i \<in> set is" "i < particleCountUniform u"
    and g: "g \<in> set stencilOffsets"
  shows "decodeFixedPoint (encodeFixedPoint (weightOf (particlePosition (pb i)) g))
     \<le> decodeFixedPoint (cell_mass (cb1 (nat (sint (cellPtrOf (particlePosition (pb i)) g)))))"
proof -
  let ?D = "p2g1Deposits u pb is"
  let ?d = "p2g1Deposit (pb i) g"
  note r = compute_p2g1Kernel_Inr [OF run]
  have m: "?d \<in> set ?D"
    using i g by (auto simp: p2g1Deposits_def)
  have nn: "\<forall>d\<in>set ?D. 0 \<le> sint (cell_mass (snd d))"
    using p2g1Deposits_wellformed(2) [OF r(1)] by blast
  have c: "int (fst ?d) < cellCount"
    by (rule p2g1Deposits_wellformed(1) [OF r(1) m])
  have "sint (cell_mass (snd ?d)) \<le> exactMass ?D (fst ?d)"
    by (rule exactMass_member [OF nn m])
  also have "\<dots> = sint (cell_mass (cb1 (fst ?d)))"
    by (rule p2g1_mass_exact [OF cleared run fits c, symmetric])
  finally have "sint (cell_mass (snd ?d)) \<le> sint (cell_mass (cb1 (fst ?d)))" .
  then have "decodeFixedPoint (cell_mass (snd ?d)) \<le> decodeFixedPoint (cell_mass (cb1 (fst ?d)))"
    by (rule decode_mono)
  then show ?thesis
    by (simp add: p2g1Deposit_def)
qed

lemma p2g1_density:
  assumes cleared: "massCleared cb0"
    and run: "compute (p2g1Kernel u pb) is cb0 = Inr cb1"
    and fits: "\<forall>c. exactMass (p2g1Deposits u pb is) c < 2147483648"
    and i: "i \<in> set is" "i < particleCountUniform u"
  shows "stencilInGrid (particlePosition (pb i))"
    and "ownDensity (particlePosition (pb i))
      \<le> densitySum (particlePosition (pb i)) cb1 stencilOffsets"
proof -
  note r = compute_p2g1Kernel_Inr [OF run]
  show "stencilInGrid (particlePosition (pb i))"
    using r(1) i by (simp add: list_all_iff)
  show "ownDensity (particlePosition (pb i))
      \<le> densitySum (particlePosition (pb i)) cb1 stencilOffsets"
    unfolding ownDensity_def densitySum_def
  proof (rule sum_list_mono)
    fix g assume g: "g \<in> set stencilOffsets"
    show "decodeFixedPoint (encodeFixedPoint (weightOf (particlePosition (pb i)) g))
          * weightOf (particlePosition (pb i)) g
        \<le> decodeFixedPoint (cell_mass (cb1 (nat (sint (cellPtrOf (particlePosition (pb i)) g)))))
          * weightOf (particlePosition (pb i)) g"
      by (intro mult_right_mono p2g1_own_mass [OF cleared run fits i g] weightOf_bounds(1) [OF g])
  qed
qed

lemma p2g1_ready:
  assumes cleared: "massCleared cb0"
    and run: "compute (p2g1Kernel u pb) is cb0 = Inr cb1"
    and fits: "\<forall>c. exactMass (p2g1Deposits u pb is) c < 2147483648"
  shows "list_all (p2g2Ready u pb cb1) is"
  unfolding list_all_iff p2g2Ready_def
proof (intro ballI impI conjI)
  fix i assume i: "i \<in> set is" "i < particleCountUniform u"
  note d = p2g1_density [OF cleared run fits i]
  show "stencilInGrid (particlePosition (pb i))"
    by (rule d(1))
  show "densitySum (particlePosition (pb i)) cb1 stencilOffsets \<noteq> 0"
    using d(2) ownDensity_pos [of "particlePosition (pb i)"] by linarith
qed

lemma updateGridKernel_skip:
  assumes "decodeFixedPoint (cell_mass (cb c)) \<le> 0"
  shows "updateGridKernel cb c cbf = cbf"
  using assms by (simp add: updateGridKernel_def Let_def)

section \<open>The grid update\<close>

lemma sdiv_smod_nonneg:
  fixes k l :: int
  assumes "0 \<le> k" "0 < l"
  shows "k sdiv l = k div l" "k smod l = k mod l"
  using assms by (simp_all add: signed_divide_int_def signed_modulo_int_def sgn_if)

lemma lattice_coordinates:
  fixes cx cy cz :: int
  assumes "0 \<le> cx" "cx < 64" "0 \<le> cy" "cy < 64" "0 \<le> cz" "cz < 64"
  shows "(cx * 4096 + cy * 64 + cz) div 4096 = cx"
    and "((cx * 4096 + cy * 64 + cz) div 64) mod 64 = cy"
    and "(cx * 4096 + cy * 64 + cz) mod 64 = cz"
proof -
  define m where "m = cx * 64 + cy"
  define n where "n = cy * 64 + cz"
  have e: "cx * 4096 + cy * 64 + cz = m * 64 + cz" "cx * 4096 + cy * 64 + cz = cx * 4096 + n"
    by (simp_all add: m_def n_def)
  have n: "0 \<le> n" "n < 4096"
    using assms unfolding n_def by linarith+
  have d: "(m * 64 + cz) div 64 = m"
    using assms(5,6) by simp
  show "(cx * 4096 + cy * 64 + cz) mod 64 = cz"
    unfolding e(1) using assms(5,6) by simp
  show "((cx * 4096 + cy * 64 + cz) div 64) mod 64 = cy"
    unfolding e(1) d using assms(3,4) by (simp add: m_def)
  show "(cx * 4096 + cy * 64 + cz) div 4096 = cx"
    unfolding e(2) using n by simp
qed

section \<open>The grid-to-particle kernel\<close>

lemma g2pIntegrate_withinClamp: "withinClamp (g2pIntegrate u position v)"
  by (simp add: withinClamp_def g2pIntegrate_def vclamp_def clampLow_def clampHigh_def
      vdiv_def vsub_def vsplat_def gridSizeUniform_def gridSize_x_def gridSize_y_def gridSize_z_def
      gridSize1d_def min_def max_def)

lemma g2pKernel_cases:
  assumes "g2pKernel u tg cbf i pb = Inr pb'"
  shows "(i \<ge> particleCountUniform u \<and> pb' = pb) \<or>
     (i < particleCountUniform u \<and> (\<forall>j. j \<noteq> i \<longrightarrow> pb' j = pb j) \<and>
      (\<exists>v. particlePosition (pb' i) = g2pIntegrate u (particlePosition (pb i)) v))"
  using assms
  by (auto simp: g2pKernel_def Let_def split: if_splits sum.splits prod.splits)

lemma g2pKernel_withinClamp:
  assumes "g2pKernel u tg cbf i pb = Inr pb'"
    and "j = i \<and> i < particleCountUniform u \<or> withinClamp (particlePosition (pb j))"
  shows "withinClamp (particlePosition (pb' j))"
  using g2pKernel_cases [OF assms(1)] assms(2)
  by (metis g2pIntegrate_withinClamp leD)

lemma compute_g2pKernel_withinClamp:
  assumes "compute (g2pKernel u tg cbf) is pb = Inr pb'"
    and "j \<in> set is \<and> j < particleCountUniform u \<or> withinClamp (particlePosition (pb j))"
  shows "withinClamp (particlePosition (pb' j))"
  using assms unfolding compute_def
proof (induction "is" arbitrary: pb)
  case Nil
  then show ?case by simp
next
  case (Cons i "is")
  from Cons.prems(1) obtain pb1 where k: "g2pKernel u tg cbf i pb = Inr pb1"
    and r: "forE is (g2pKernel u tg cbf) pb1 = Inr pb'"
    by (auto split: sum.splits)
  show ?case
  proof (cases "j = i \<and> i < particleCountUniform u \<or> withinClamp (particlePosition (pb j))")
    case True
    then have "withinClamp (particlePosition (pb1 j))"
      by (rule g2pKernel_withinClamp [OF k])
    then show ?thesis
      using Cons.IH [OF r] by blast
  next
    case False
    then have "j \<in> set is \<and> j < particleCountUniform u"
      using Cons.prems(2) by auto
    then show ?thesis
      using Cons.IH [OF r] by blast
  qed
qed

lemma forE_g2pCell_zero:
  "forE gs (g2pCell u position zeroFloatCells)
       (Mat3 (Vec3 0 0 0) (Vec3 0 0 0) (Vec3 0 0 0), Vec3 0 0 0) =
     (if list_all (\<lambda>g. inGrid (cellPtrOf position g)) gs
      then Inr (Mat3 (Vec3 0 0 0) (Vec3 0 0 0) (Vec3 0 0 0), Vec3 0 0 0)
      else Inl OutOfBounds)"
proof (induction gs)
  case Nil
  show ?case by simp
next
  case (Cons g gs)
  have step: "g2pCell u position zeroFloatCells g
       (Mat3 (Vec3 0 0 0) (Vec3 0 0 0) (Vec3 0 0 0), Vec3 0 0 0) =
     (if inGrid (cellPtrOf position g)
      then Inr (Mat3 (Vec3 0 0 0) (Vec3 0 0 0) (Vec3 0 0 0), Vec3 0 0 0)
      else Inl OutOfBounds)"
    by (simp add: g2pCell_def Let_def cellElement_inGrid zeroFloatCells_def vscale_def madd_def
        vadd_def)
  show ?case
    by (simp add: step Cons.IH)
qed

lemma g2pKernel_zeroFloatCells:
  assumes "i < particleCountUniform u" "stencilInGrid (particlePosition (pb i))"
  shows "g2pKernel u tg zeroFloatCells i pb =
     Inr (pb(i := (pb i)\<lparr>particleC :=
             mscale (mscale (Mat3 (Vec3 0 0 0) (Vec3 0 0 0) (Vec3 0 0 0)) 4) (fluidStrengthUniform u),
           particlePosition := g2pIntegrate u (particlePosition (pb i))
             (g2pForces u tg i (particlePosition (pb i)) (Vec3 0 0 0)),
           particleVelocity := vmul (g2pForces u tg i (particlePosition (pb i)) (Vec3 0 0 0))
             gridSizeUniform\<rparr>))"
  using assms
  by (simp add: g2pKernel_def Let_def forE_g2pCell_zero flip: stencilInGrid_def)

lemma sin_cos_ge: "- 1 \<le> sin (a::real) * cos (b::real)"
proof -
  have "\<bar>sin a * cos b\<bar> \<le> 1 * 1"
    unfolding abs_mult by (intro mult_mono abs_sin_le_one abs_cos_le_one) simp_all
  then show ?thesis by (simp add: abs_le_iff)
qed

lemma wall_force_x:
  "\<exists>a b. vec_x (g2pForces settledUniforms wallTargets i (Vec3 (125 / 128) (1 / 2) (1 / 2)) (Vec3 0 0 0))
     = 17 / 256 + sin a * cos b / 60"
  by (simp add: g2pForces_def Let_def settledUniforms_def setupUniforms_def wallTargets_def
      selectTarget_def vadd_def vsub_def vscale_def vdiv_def vcross_def vlength_def
      gridSizeUniform_def) blast

lemma wall_stencilInGrid: "stencilInGrid (particlePosition (wallParticles i))"
  by (rule stencilInGrid_interior) (simp_all add: wallParticles_def)

lemma wall_run:
  "compute (g2pKernel settledUniforms wallTargets zeroFloatCells) [0] wallParticles =
     Inr (wallParticles(0 := (wallParticles 0)\<lparr>particleC :=
             mscale (mscale (Mat3 (Vec3 0 0 0) (Vec3 0 0 0) (Vec3 0 0 0)) 4)
               (fluidStrengthUniform settledUniforms),
           particlePosition := g2pIntegrate settledUniforms (particlePosition (wallParticles 0))
             (g2pForces settledUniforms wallTargets 0 (particlePosition (wallParticles 0))
                (Vec3 0 0 0)),
           particleVelocity :=
             vmul (g2pForces settledUniforms wallTargets 0 (particlePosition (wallParticles 0))
                (Vec3 0 0 0)) gridSizeUniform\<rparr>))"
proof -
  have c: "0 < particleCountUniform settledUniforms"
    by (simp add: settledUniforms_def setupUniforms_def)
  show ?thesis
    unfolding compute_def
    by (simp add: g2pKernel_zeroFloatCells [OF c wall_stencilInGrid])
qed

lemma wall_position_x:
  "125 / 128 < vec_x (g2pIntegrate settledUniforms (particlePosition (wallParticles 0))
     (g2pForces settledUniforms wallTargets 0 (particlePosition (wallParticles 0)) (Vec3 0 0 0)))"
proof -
  obtain a b :: real where f: "vec_x (g2pForces settledUniforms wallTargets 0
      (Vec3 (125 / 128) (1 / 2) (1 / 2)) (Vec3 0 0 0)) = 17 / 256 + sin a * cos b / 60"
    using wall_force_x [of 0] by blast
  have p: "particlePosition (wallParticles 0) = Vec3 (125 / 128) (1 / 2) (1 / 2)"
    by (simp add: wallParticles_def)
  have dt: "dtUniform settledUniforms = 1 / 60"
    by (simp add: settledUniforms_def setupUniforms_def)
  have "0 < 17 / 256 + sin a * cos b / 60"
    using sin_cos_ge [of a b] by linarith
  then have gt: "125 / 128 < 125 / 128 + (17 / 256 + sin a * cos b / 60) * (1 / 60)"
    by simp
  have e: "vec_x (g2pIntegrate settledUniforms (Vec3 (125 / 128) (1 / 2) (1 / 2))
     (g2pForces settledUniforms wallTargets 0 (Vec3 (125 / 128) (1 / 2) (1 / 2)) (Vec3 0 0 0))) =
     min (max (125 / 128 + (17 / 256 + sin a * cos b / 60) * (1 / 60)) (1 / 128)) (63 / 64)"
    by (simp add: g2pIntegrate_def vclamp_def vadd_def vscale_def f dt vdiv_def vsub_def
        vsplat_def gridSizeUniform_def gridSize_x_def gridSize_y_def gridSize_z_def gridSize1d_def)
  have hi: "(125 / 128 :: real) < 63 / 64"
    by simp
  show ?thesis
    unfolding p e min_less_iff_conj less_max_iff_disj using gt hi by blast
qed

lemma decode_sample:
  "decodeFixedPoint 20000000 = 2" "decodeFixedPoint (- 10000000) = - 1"
  "decodeFixedPoint 5000000 = 1 / 2" "decodeFixedPoint 10000000 = 1"
  by (simp_all add: decodeFixedPoint_def toFloat_def fixedPointMultiplier_def)

text \<open>
  At the two bounds of the clamp the stencil reaches outside the 64 cells of an axis, and every
  kernel that walks the stencil hits a cell outside the buffers.
\<close>

lemma stencilOffsets_first: "\<exists>gs. stencilOffsets = (0, 0, 0) # gs"
  by (simp add: stencilOffsets_def)

lemma lower_bound_ptr:
  "sint (cellPtrOf (Vec3 (1 / 128) (1 / 128) (1 / 128)) (0, 0, 0)) = - 4161"
  unfolding cellPtrOf_eq by (simp add: cell_lo)

lemma upper_bound_ptr:
  "sint (cellPtrOf (Vec3 (63 / 64) (63 / 64) (63 / 64)) (2, 2, 2)) = 266304"
  unfolding cellPtrOf_eq by (simp add: cell_hi)

lemma lower_bound_not_inGrid: "\<not> inGrid (cellPtrOf (Vec3 (1 / 128) (1 / 128) (1 / 128)) (0, 0, 0))"
  by (simp add: inGrid_def lower_bound_ptr)

lemma lower_bound_not_stencilInGrid:
  "\<not> stencilInGrid (particlePosition (lowerBoundParticles i))"
proof -
  obtain gs where s: "stencilOffsets = (0, 0, 0) # gs"
    using stencilOffsets_first by blast
  show ?thesis
    unfolding stencilInGrid_def s
    using lower_bound_not_inGrid by (simp add: lowerBoundParticles_def)
qed

lemma upper_bound_not_stencilInGrid:
  "\<not> stencilInGrid (particlePosition (upperBoundParticles i))"
proof -
  have "(2, 2, 2) \<in> set stencilOffsets"
    by (simp add: set_stencilOffsets)
  moreover have "\<not> inGrid (cellPtrOf (Vec3 (63 / 64) (63 / 64) (63 / 64)) (2, 2, 2))"
    by (simp add: inGrid_def upper_bound_ptr cellCount_def gridSize_x_def gridSize_y_def
        gridSize_z_def gridSize1d_def)
  ultimately show ?thesis
    unfolding stencilInGrid_def list_all_iff
    by (auto simp: upperBoundParticles_def)
qed

lemma forE_g2pCell_outside:
  assumes "\<not> list_all (\<lambda>g. inGrid (cellPtrOf position g)) gs"
  shows "forE gs (g2pCell u position cbf) acc = Inl OutOfBounds"
  using assms
proof (induction gs arbitrary: acc)
  case Nil
  then show ?case by simp
next
  case (Cons g gs)
  show ?case
  proof (cases "inGrid (cellPtrOf position g)")
    case False
    then show ?thesis
      by (simp add: g2pCell_def Let_def cellElement_inGrid)
  next
    case True
    then obtain acc' where a: "g2pCell u position cbf g acc = Inr acc'"
      by (simp add: g2pCell_def Let_def cellElement_inGrid)
    have "\<not> list_all (\<lambda>g. inGrid (cellPtrOf position g)) gs"
      using Cons.prems True by simp
    then show ?thesis
      using Cons.IH [of acc'] by (simp add: a)
  qed
qed

lemma g2pKernel_outside:
  assumes "i < particleCountUniform u" "\<not> stencilInGrid (particlePosition (pb i))"
  shows "g2pKernel u tg cbf i pb = Inl OutOfBounds"
proof -
  have "forE stencilOffsets (g2pCell u (particlePosition (pb i)) cbf)
      (Mat3 (Vec3 0 0 0) (Vec3 0 0 0) (Vec3 0 0 0), Vec3 0 0 0) = Inl OutOfBounds"
    using assms(2) by (intro forE_g2pCell_outside) (simp add: stencilInGrid_def)
  then show ?thesis
    using assms(1) by (simp add: g2pKernel_def Let_def)
qed

text \<open>
  The kernel that continues after a read outside the buffer agrees with \<^verbatim>\<open>g2pKernel\<close>
  wherever that one returns, and it always ends with the clamp.
\<close>

lemma g2pCellRobust_agrees:
  assumes "g2pCell u position cbf g acc = Inr acc'"
  shows "g2pCellRobust u position cbf outside g acc = acc'"
  using assms
  by (auto simp: g2pCell_def g2pCellRobust_def Let_def split: sum.splits)

lemma fold_g2pCellRobust_agrees:
  assumes "forE gs (g2pCell u position cbf) acc = Inr acc'"
  shows "fold (g2pCellRobust u position cbf outside) gs acc = acc'"
  using assms
proof (induction gs arbitrary: acc)
  case Nil
  then show ?case by simp
next
  case (Cons g gs)
  from Cons.prems obtain acc1 where a: "g2pCell u position cbf g acc = Inr acc1"
    and r: "forE gs (g2pCell u position cbf) acc1 = Inr acc'"
    by (auto split: sum.splits)
  show ?case
    using Cons.IH [OF r] by (simp add: g2pCellRobust_agrees [OF a])
qed

lemma g2pKernelRobust_agrees:
  assumes "g2pKernel u tg cbf i pb = Inr pb'"
  shows "g2pKernelRobust u tg cbf outside i pb = pb'"
proof (cases "particleCountUniform u \<le> i")
  case True
  then show ?thesis
    using assms by (simp add: g2pKernel_def g2pKernelRobust_def)
next
  case False
  let ?init = "(Mat3 (Vec3 0 0 0) (Vec3 0 0 0) (Vec3 0 0 0), Vec3 0 0 0)"
  from assms False obtain acc where
    f: "forE stencilOffsets (g2pCell u (particlePosition (pb i)) cbf) ?init = Inr acc"
    by (auto simp: g2pKernel_def Let_def split: sum.splits)
  note r = fold_g2pCellRobust_agrees [OF f, of "outside i"]
  show ?thesis
    using assms False
    by (simp add: g2pKernel_def g2pKernelRobust_def Let_def f r split: prod.splits)
qed

lemma computeRobust_g2p_agrees:
  assumes "compute (g2pKernel u tg cbf) is pb = Inr pb'"
  shows "computeRobust (g2pKernelRobust u tg cbf outside) is pb = pb'"
  using assms unfolding compute_def computeRobust_def
proof (induction "is" arbitrary: pb)
  case Nil
  then show ?case by simp
next
  case (Cons i "is")
  from Cons.prems obtain pb1 where k: "g2pKernel u tg cbf i pb = Inr pb1"
    and r: "forE is (g2pKernel u tg cbf) pb1 = Inr pb'"
    by (auto split: sum.splits)
  show ?case
    using Cons.IH [OF r] by (simp add: g2pKernelRobust_agrees [OF k])
qed

lemma g2pKernelRobust_position:
  "particlePosition (g2pKernelRobust u tg cbf outside i pb j) =
     (if j = i \<and> i < particleCountUniform u
      then g2pIntegrate u (particlePosition (pb i))
             (g2pForces u tg i (particlePosition (pb i))
                (snd (fold (g2pCellRobust u (particlePosition (pb i)) cbf (outside i))
                   stencilOffsets (Mat3 (Vec3 0 0 0) (Vec3 0 0 0) (Vec3 0 0 0), Vec3 0 0 0))))
      else particlePosition (pb j))"
  by (simp add: g2pKernelRobust_def Let_def split: prod.splits)

lemma g2pKernelRobust_withinClamp:
  assumes "j = i \<and> i < particleCountUniform u \<or> withinClamp (particlePosition (pb j))"
  shows "withinClamp (particlePosition (g2pKernelRobust u tg cbf outside i pb j))"
  using assms unfolding g2pKernelRobust_position
  by (auto simp: g2pIntegrate_withinClamp)

lemma computeRobust_g2p_withinClamp:
  assumes "j \<in> set is \<and> j < particleCountUniform u \<or> withinClamp (particlePosition (pb j))"
  shows "withinClamp
     (particlePosition (computeRobust (g2pKernelRobust u tg cbf outside) is pb j))"
  using assms unfolding computeRobust_def
proof (induction "is" arbitrary: pb)
  case Nil
  then show ?case by simp
next
  case (Cons i "is")
  show ?case
  proof (cases "j = i \<and> i < particleCountUniform u \<or> withinClamp (particlePosition (pb j))")
    case True
    then have "withinClamp (particlePosition (g2pKernelRobust u tg cbf outside i pb j))"
      by (rule g2pKernelRobust_withinClamp)
    then show ?thesis
      using Cons.IH [of "g2pKernelRobust u tg cbf outside i pb"] by simp
  next
    case False
    then have "j \<in> set is \<and> j < particleCountUniform u"
      using Cons.prems by auto
    then show ?thesis
      using Cons.IH [of "g2pKernelRobust u tg cbf outside i pb"] by simp
  qed
qed

section \<open>The claims about the pipeline\<close>

text \<open>
  Claim C1 fails on the code. A particle at the lower bound \<open>0.5 / 64\<close> of the clamp on every
  axis, a position \<^verbatim>\<open>g2pKernel\<close> itself produces, has grid position 0.5 and base cell index
  \<open>-1\<close>, so its first stencil cell has the pointer \<open>-4161\<close>; at the upper bound \<open>63 / 64\<close> the
  base cell index is 62 and the last stencil cell has the pointer 266304, beyond the 262144
  cells. Both accesses are outside the cell buffers, and each of \<^verbatim>\<open>p2g1Kernel\<close>,
  \<^verbatim>\<open>p2g2Kernel\<close> and \<^verbatim>\<open>g2pKernel\<close> run on such a particle ends in an access out of
  bounds.
\<close>

theorem stencil_leaves_grid_at_clamp_bounds:
  "withinClamp (particlePosition (lowerBoundParticles 0)) \<and>
   sint (cellPtrOf (particlePosition (lowerBoundParticles 0)) (0, 0, 0)) = - 4161 \<and>
   cellElement (cellPtrOf (particlePosition (lowerBoundParticles 0)) (0, 0, 0)) = Inl OutOfBounds \<and>
   p2g1Kernel setupUniforms lowerBoundParticles 0 zeroCells = Inl OutOfBounds \<and>
   p2g2Kernel setupUniforms lowerBoundParticles 0 zeroCells = Inl OutOfBounds \<and>
   g2pKernel setupUniforms wallTargets zeroFloatCells 0 lowerBoundParticles = Inl OutOfBounds \<and>
   withinClamp (particlePosition (upperBoundParticles 0)) \<and>
   sint (cellPtrOf (particlePosition (upperBoundParticles 0)) (2, 2, 2)) = 266304 \<and>
   cellCount = 262144 \<and>
   cellElement (cellPtrOf (particlePosition (upperBoundParticles 0)) (2, 2, 2)) = Inl OutOfBounds \<and>
   p2g1Kernel setupUniforms upperBoundParticles 0 zeroCells = Inl OutOfBounds \<and>
   p2g2Kernel setupUniforms upperBoundParticles 0 zeroCells = Inl OutOfBounds \<and>
   g2pKernel setupUniforms wallTargets zeroFloatCells 0 upperBoundParticles = Inl OutOfBounds"
proof -
  have c: "0 < particleCountUniform setupUniforms"
    by (simp add: setupUniforms_def)
  have cc: "cellCount = 262144"
    by (simp add: cellCount_def gridSize_x_def gridSize_y_def gridSize_z_def gridSize1d_def)
  have lo: "particlePosition (lowerBoundParticles 0) = Vec3 (1 / 128) (1 / 128) (1 / 128)"
    by (simp add: lowerBoundParticles_def)
  have hi: "particlePosition (upperBoundParticles 0) = Vec3 (63 / 64) (63 / 64) (63 / 64)"
    by (simp add: upperBoundParticles_def)
  have w: "withinClamp (Vec3 (1 / 128) (1 / 128) (1 / 128))"
    "withinClamp (Vec3 (63 / 64) (63 / 64) (63 / 64))"
    by (simp_all add: withinClamp_def clampLow_def clampHigh_def gridSize1d_def)
  have e: "cellElement (cellPtrOf (Vec3 (1 / 128) (1 / 128) (1 / 128)) (0, 0, 0)) = Inl OutOfBounds"
    "cellElement (cellPtrOf (Vec3 (63 / 64) (63 / 64) (63 / 64)) (2, 2, 2)) = Inl OutOfBounds"
    by (simp_all add: cellElement_def lower_bound_ptr upper_bound_ptr cc)
  have k1: "p2g1Kernel setupUniforms lowerBoundParticles 0 zeroCells = Inl OutOfBounds"
    "p2g1Kernel setupUniforms upperBoundParticles 0 zeroCells = Inl OutOfBounds"
    using c by (simp_all add: p2g1Kernel_scatter lower_bound_not_stencilInGrid
        upper_bound_not_stencilInGrid)
  have k2: "p2g2Kernel setupUniforms lowerBoundParticles 0 zeroCells = Inl OutOfBounds"
    "p2g2Kernel setupUniforms upperBoundParticles 0 zeroCells = Inl OutOfBounds"
    using c by (simp_all add: p2g2Kernel_scatter lower_bound_not_stencilInGrid
        upper_bound_not_stencilInGrid)
  have k3: "g2pKernel setupUniforms wallTargets zeroFloatCells 0 lowerBoundParticles = Inl OutOfBounds"
    "g2pKernel setupUniforms wallTargets zeroFloatCells 0 upperBoundParticles = Inl OutOfBounds"
    by (rule g2pKernel_outside [OF c lower_bound_not_stencilInGrid]
        g2pKernel_outside [OF c upper_bound_not_stencilInGrid])+
  show ?thesis
    unfolding lo hi
    using w e k1 k2 k3 cc lower_bound_ptr upper_bound_ptr by blast
qed

text \<open>
  Claim C3. Whatever the position, the 27 stencil weights of a particle sum to exactly 1. When
  \<^verbatim>\<open>p2g1Kernel\<close> has run over the instances \<open>is\<close> on a cell buffer with cleared masses, without
  leaving the grid and with every cell's deposited mass below \<open>2\<^sup>3\<^sup>1\<close>, the sum of the decoded
  masses over all cells differs from the number of active particles by at most one decode step
  \<^verbatim>\<open>decodeFixedPoint 1\<close> for each of the 27 terms every particle accumulates.
\<close>

theorem p2g1_conserves_mass:
  assumes cleared: "massCleared cb0"
    and run: "compute (p2g1Kernel u pb) is cb0 = Inr cb"
    and fits: "\<forall>c. exactMass (p2g1Deposits u pb is) c < 2147483648"
  shows "sum_list (map (weightOf position) stencilOffsets) = 1 \<and>
     \<bar>totalMass cb - real (activeCount u is)\<bar>
       \<le> 27 * real (activeCount u is) * decodeFixedPoint 1"
proof
  show "sum_list (map (weightOf position) stencilOffsets) = 1"
    by (rule weightOf_sum)
next
  let ?act = "filter (\<lambda>i. i < particleCountUniform u) is"
  let ?S = "sum_list (map (\<lambda>i. real_of_int (particleMass (pb i))) ?act)"
  have t: "totalMass cb = ?S / 10000000"
    by (simp add: p2g1_totalMass [OF cleared run fits] real_of_int_sum_list)
  have b: "\<forall>i\<in>set ?act. 10000000 - 27 \<le> real_of_int (particleMass (pb i))
      \<and> real_of_int (particleMass (pb i)) \<le> 10000000"
    by (intro ballI conjI particleMass_bounds)
  have n: "real (length ?act) = real (activeCount u is)"
    by (simp add: activeCount_def)
  have lo: "real (activeCount u is) * (10000000 - 27) \<le> ?S"
    using sum_list_bounds(1) [OF b] unfolding n .
  have hi: "?S \<le> real (activeCount u is) * 10000000"
    using sum_list_bounds(2) [OF b] unfolding n .
  have e: "decodeFixedPoint 1 = 1 / 10000000"
    by (simp add: decode_sint)
  show "\<bar>totalMass cb - real (activeCount u is)\<bar>
       \<le> 27 * real (activeCount u is) * decodeFixedPoint 1"
    unfolding t e using lo hi by (simp add: field_simps abs_le_iff)
qed

theorem p2g1_conserves_mass_witness:
  "massCleared zeroCells \<and>
   compute (p2g1Kernel setupUniforms centredParticles) [0, 1] zeroCells =
     Inr (scatter (p2g1Deposits setupUniforms centredParticles [0, 1]) zeroCells) \<and>
   (\<forall>c. exactMass (p2g1Deposits setupUniforms centredParticles [0, 1]) c < 2147483648) \<and>
   activeCount setupUniforms [0, 1] = 2 \<and>
   \<bar>totalMass (scatter (p2g1Deposits setupUniforms centredParticles [0, 1]) zeroCells) - 2\<bar>
     \<le> 27 * 2 * decodeFixedPoint 1"
proof -
  have f: "\<forall>c. exactMass (p2g1Deposits setupUniforms centredParticles [0, 1]) c < 2147483648"
    by (simp add: centred_fits)
  have a: "activeCount setupUniforms [0, 1] = 2"
    by (simp add: activeCount_def setupUniforms_def)
  have "\<bar>totalMass (scatter (p2g1Deposits setupUniforms centredParticles [0, 1]) zeroCells)
       - real (activeCount setupUniforms [0, 1])\<bar>
     \<le> 27 * real (activeCount setupUniforms [0, 1]) * decodeFixedPoint 1"
    by (rule p2g1_conserves_mass [OF massCleared_zeroCells centred_run f, THEN conjunct2])
  then show ?thesis
    unfolding a using massCleared_zeroCells centred_run [of "[0, 1]"] f by simp
qed

text \<open>
  Claim C4, as the code has it. After the \<^verbatim>\<open>g2pKernel\<close> dispatch has run, the position of
  every active particle it covers lies within \<open>[0.5 / 64, 1 - 1 / 64]\<close> on each axis, the
  bounds of the clamp at the end of the kernel, whatever the reads of the gather loop returned,
  those outside the float cell buffer included. Where the dispatch of \<^verbatim>\<open>g2pKernel\<close> returns a
  particle buffer, it is that of the dispatch considered here.
\<close>

theorem g2p_position_within_clamp:
  "clampLow = (1 / 2) / 64 \<and> clampHigh = 1 - 1 / 64 \<and>
   (i \<in> set is \<and> i < particleCountUniform u \<longrightarrow>
      clampLow \<le> vec_x (particlePosition
        (computeRobust (g2pKernelRobust u tg cbf outside) is pb i)) \<and>
      vec_x (particlePosition
        (computeRobust (g2pKernelRobust u tg cbf outside) is pb i)) \<le> clampHigh \<and>
      clampLow \<le> vec_y (particlePosition
        (computeRobust (g2pKernelRobust u tg cbf outside) is pb i)) \<and>
      vec_y (particlePosition
        (computeRobust (g2pKernelRobust u tg cbf outside) is pb i)) \<le> clampHigh \<and>
      clampLow \<le> vec_z (particlePosition
        (computeRobust (g2pKernelRobust u tg cbf outside) is pb i)) \<and>
      vec_z (particlePosition
        (computeRobust (g2pKernelRobust u tg cbf outside) is pb i)) \<le> clampHigh) \<and>
   (compute (g2pKernel u tg cbf) is pb = Inr pb' \<longrightarrow>
      computeRobust (g2pKernelRobust u tg cbf outside) is pb = pb')"
proof (intro conjI impI)
  show "clampLow = (1 / 2) / 64" "clampHigh = 1 - 1 / 64"
    by (simp_all add: clampLow_def clampHigh_def gridSize1d_def)
next
  assume "compute (g2pKernel u tg cbf) is pb = Inr pb'"
  then show "computeRobust (g2pKernelRobust u tg cbf outside) is pb = pb'"
    by (rule computeRobust_g2p_agrees)
next
  assume "i \<in> set is \<and> i < particleCountUniform u"
  then have w: "withinClamp
     (particlePosition (computeRobust (g2pKernelRobust u tg cbf outside) is pb i))"
    by (intro computeRobust_g2p_withinClamp) simp
  let ?p = "particlePosition (computeRobust (g2pKernelRobust u tg cbf outside) is pb i)"
  show "clampLow \<le> vec_x ?p" "vec_x ?p \<le> clampHigh" "clampLow \<le> vec_y ?p"
    "vec_y ?p \<le> clampHigh" "clampLow \<le> vec_z ?p" "vec_z ?p \<le> clampHigh"
    using w by (simp_all add: withinClamp_def)
qed

theorem g2p_position_within_clamp_witness:
  "0 \<in> set [0 :: nat] \<and> 0 < particleCountUniform setupUniforms \<and>
   g2pKernel setupUniforms wallTargets zeroFloatCells 0 upperBoundParticles = Inl OutOfBounds \<and>
   clampLow \<le> vec_x (particlePosition
     (computeRobust (g2pKernelRobust setupUniforms wallTargets zeroFloatCells
        sampleOutside) [0] upperBoundParticles 0)) \<and>
   vec_x (particlePosition
     (computeRobust (g2pKernelRobust setupUniforms wallTargets zeroFloatCells
        sampleOutside) [0] upperBoundParticles 0)) \<le> clampHigh \<and>
   compute (g2pKernel settledUniforms wallTargets zeroFloatCells) [0] wallParticles =
     Inr (projr (compute (g2pKernel settledUniforms wallTargets zeroFloatCells) [0] wallParticles)) \<and>
   computeRobust (g2pKernelRobust settledUniforms wallTargets zeroFloatCells
        sampleOutside) [0] wallParticles =
     projr (compute (g2pKernel settledUniforms wallTargets zeroFloatCells) [0] wallParticles)"
proof -
  let ?r = "compute (g2pKernel settledUniforms wallTargets zeroFloatCells) [0] wallParticles"
  have run: "?r = Inr (projr ?r)"
    unfolding wall_run by simp
  have m: "0 \<in> set [0 :: nat] \<and> 0 < particleCountUniform setupUniforms"
    by (simp add: setupUniforms_def)
  have out: "g2pKernel setupUniforms wallTargets zeroFloatCells 0 upperBoundParticles =
      Inl OutOfBounds"
    using m by (intro g2pKernel_outside upper_bound_not_stencilInGrid) simp
  note A = g2p_position_within_clamp [of 0 "[0]" setupUniforms wallTargets zeroFloatCells sampleOutside
      upperBoundParticles, THEN conjunct2, THEN conjunct2, THEN conjunct1, THEN mp, OF m]
  note B = g2p_position_within_clamp [of _ "[0]" settledUniforms wallTargets zeroFloatCells sampleOutside
      wallParticles "projr ?r", THEN conjunct2, THEN conjunct2, THEN conjunct2, THEN mp, OF run]
  show ?thesis
    using m out A run B by blast
qed

text \<open>
  Claim C4 as stated fails: a particle at \<open>x = 1 - 1.5 / 64\<close> whose shape target lies on the
  wall \<open>x = 1\<close> is pulled toward it and ends the frame above \<open>1 - 1.5 / 64\<close>, which the
  clamp allows.
\<close>

theorem g2p_upper_bound_counterexample:
  "\<not> isl (compute (g2pKernel settledUniforms wallTargets zeroFloatCells) [0] wallParticles) \<and>
   0 < particleCountUniform settledUniforms \<and>
   1 - (3 / 2) / 64 < vec_x (particlePosition
     (projr (compute (g2pKernel settledUniforms wallTargets zeroFloatCells) [0] wallParticles) 0))"
  unfolding wall_run using wall_position_x
  by (simp add: settledUniforms_def setupUniforms_def)

text \<open>
  Claim C5. For the cell with lattice coordinates \<open>(cx, cy, cz)\<close>, stored at index
  \<open>cx * (gridSize_y * gridSize_z) + cy * gridSize_z + cz\<close>, whose decoded mass is positive,
  \<^verbatim>\<open>updateGridKernel\<close> stores into the float cell buffer the decoded momentum divided by the
  decoded mass, with the component of every axis on which the coordinate is below 1 or above
  the axis size minus 2 replaced by 0, and the decoded mass as fourth component.
\<close>

theorem updateGridKernel_stores_velocity:
  assumes "int cx < gridSize_x" "int cy < gridSize_y" "int cz < gridSize_z"
    and "i = nat (int cx * (gridSize_y * gridSize_z) + int cy * gridSize_z + int cz)"
    and "0 < decodeFixedPoint (cell_mass (cb i))"
  shows "updateGridKernel cb i cbf =
     cbf(i := Vec4
       (if int cx < 1 \<or> int cx > gridSize_x - 2 then 0
        else decodeFixedPoint (cell_x (cb i)) / decodeFixedPoint (cell_mass (cb i)))
       (if int cy < 1 \<or> int cy > gridSize_y - 2 then 0
        else decodeFixedPoint (cell_y (cb i)) / decodeFixedPoint (cell_mass (cb i)))
       (if int cz < 1 \<or> int cz > gridSize_z - 2 then 0
        else decodeFixedPoint (cell_z (cb i)) / decodeFixedPoint (cell_mass (cb i)))
       (decodeFixedPoint (cell_mass (cb i))))"
proof -
  note gs = gridSize_x_def gridSize_y_def gridSize_z_def gridSize1d_def
  have b: "0 \<le> int cx" "int cx < 64" "0 \<le> int cy" "int cy < 64" "0 \<le> int cz" "int cz < 64"
    using assms(1-3) by (simp_all add: gs)
  define k where "k = int cx * 4096 + int cy * 64 + int cz"
  have k: "0 \<le> k" "k < 262144"
    using b unfolding k_def by linarith+
  have i: "int i = k"
    using k by (simp add: assms(4) gs k_def)
  note l = lattice_coordinates [OF b, folded k_def]
  have x: "k sdiv 4096 = int cx"
    using k by (simp add: sdiv_smod_nonneg l)
  have "0 \<le> k div 64"
    using k by simp
  then have y: "(k sdiv 64) smod 64 = int cy"
    using k by (simp add: sdiv_smod_nonneg l)
  have z: "k smod 64 = int cz"
    using k by (simp add: sdiv_smod_nonneg l)
  have c: "\<not> cellCount \<le> int i"
    using k by (simp add: i cellCount_def gs)
  show ?thesis
    unfolding updateGridKernel_def Let_def
    using assms(5) c by (simp add: i gs x y z)
qed

theorem updateGridKernel_stores_velocity_witness:
  "int 1 < gridSize_x \<and> int 1 < gridSize_y \<and> int 1 < gridSize_z \<and>
   4161 = nat (int 1 * (gridSize_y * gridSize_z) + int 1 * gridSize_z + int 1) \<and>
   0 < decodeFixedPoint (cell_mass (sampleCells 4161)) \<and>
   updateGridKernel sampleCells 4161 zeroFloatCells =
     zeroFloatCells(4161 := Vec4 2 (- 1) (1 / 2) 1) \<and>
   int 0 < gridSize_x \<and> int 63 < gridSize_z \<and>
   127 = nat (int 0 * (gridSize_y * gridSize_z) + int 1 * gridSize_z + int 63) \<and>
   updateGridKernel sampleCells 127 zeroFloatCells =
     zeroFloatCells(127 := Vec4 0 (- 1) 0 1)"
proof -
  note gs = gridSize_x_def gridSize_y_def gridSize_z_def gridSize1d_def
  have b: "int 1 < gridSize_x" "int 1 < gridSize_y" "int 1 < gridSize_z"
    "int 0 < gridSize_x" "int 63 < gridSize_z"
    by (simp_all add: gs)
  have i1: "4161 = nat (int 1 * (gridSize_y * gridSize_z) + int 1 * gridSize_z + int 1)"
    by (simp add: gs)
  have i2: "127 = nat (int 0 * (gridSize_y * gridSize_z) + int 1 * gridSize_z + int 63)"
    by (simp add: gs)
  have m: "0 < decodeFixedPoint (cell_mass (sampleCells i))" for i
    by (simp add: sampleCells_def decode_sample)
  have r1: "updateGridKernel sampleCells 4161 zeroFloatCells =
     zeroFloatCells(4161 := Vec4 2 (- 1) (1 / 2) 1)"
    using updateGridKernel_stores_velocity [OF b(1) b(2) b(3) i1 m, where cbf = zeroFloatCells]
    by (simp add: sampleCells_def decode_sample gs)
  have r2: "updateGridKernel sampleCells 127 zeroFloatCells =
     zeroFloatCells(127 := Vec4 0 (- 1) 0 1)"
    using updateGridKernel_stores_velocity [OF b(4) b(2) b(5) i2 m, where cbf = zeroFloatCells]
    by (simp add: sampleCells_def decode_sample gs)
  show ?thesis
    using b i1 i2 m [of 4161] r1 r2 by blast
qed

text \<open>
  Claim C6. \<^verbatim>\<open>updateGridKernel\<close> leaves the float cell buffer as it is when the decoded mass
  of the cell is not positive. When \<^verbatim>\<open>p2g1Kernel\<close> has run over the instances \<open>is\<close> on a cell
  buffer with cleared masses, without leaving the grid and without overflow of a mass
  accumulator, the density \<^verbatim>\<open>p2g2Kernel\<close> sums for every active particle is strictly positive,
  being at least what the particle's own deposits contribute, and the whole \<^verbatim>\<open>p2g2Kernel\<close>
  dispatch runs without a division by zero.
\<close>

theorem no_division_by_zero:
  "(decodeFixedPoint (cell_mass (cb c)) \<le> 0 \<longrightarrow> updateGridKernel cb c cbf = cbf) \<and>
   (massCleared cb0 \<and> compute (p2g1Kernel u pb) is cb0 = Inr cb1 \<and>
    (\<forall>c. exactMass (p2g1Deposits u pb is) c < 2147483648) \<longrightarrow>
      (\<forall>i\<in>set is. i < particleCountUniform u \<longrightarrow>
         (\<exists>density. p2g2Density (particlePosition (pb i)) cb1 = Inr density \<and>
            0 < density \<and> ownDensity (particlePosition (pb i)) \<le> density)) \<and>
      (\<exists>cb2. compute (p2g2Kernel u pb) is cb1 = Inr cb2))"
proof (intro conjI impI ballI)
  assume "decodeFixedPoint (cell_mass (cb c)) \<le> 0"
  then show "updateGridKernel cb c cbf = cbf"
    by (rule updateGridKernel_skip)
next
  assume h: "massCleared cb0 \<and> compute (p2g1Kernel u pb) is cb0 = Inr cb1 \<and>
    (\<forall>c. exactMass (p2g1Deposits u pb is) c < 2147483648)"
  then have cleared: "massCleared cb0"
    and run: "compute (p2g1Kernel u pb) is cb0 = Inr cb1"
    and fits: "\<forall>c. exactMass (p2g1Deposits u pb is) c < 2147483648"
    by simp_all
  show "\<exists>cb2. compute (p2g2Kernel u pb) is cb1 = Inr cb2"
    using compute_p2g2Kernel_ready [OF p2g1_ready [OF cleared run fits]] by blast
  fix i assume i: "i \<in> set is" "i < particleCountUniform u"
  note d = p2g1_density [OF cleared run fits i]
  have "p2g2Density (particlePosition (pb i)) cb1 =
      Inr (densitySum (particlePosition (pb i)) cb1 stencilOffsets)"
    using d(1) by (simp add: p2g2Density_eq)
  moreover have "0 < densitySum (particlePosition (pb i)) cb1 stencilOffsets"
    using d(2) ownDensity_pos [of "particlePosition (pb i)"] by linarith
  ultimately show "\<exists>density. p2g2Density (particlePosition (pb i)) cb1 = Inr density \<and>
            0 < density \<and> ownDensity (particlePosition (pb i)) \<le> density"
    using d(2) by blast
qed

theorem no_division_by_zero_witness:
  "decodeFixedPoint (cell_mass (zeroCells 0)) \<le> 0 \<and>
   updateGridKernel zeroCells 0 zeroFloatCells = zeroFloatCells \<and>
   massCleared zeroCells \<and>
   compute (p2g1Kernel setupUniforms centredParticles) [0, 1] zeroCells =
     Inr (scatter (p2g1Deposits setupUniforms centredParticles [0, 1]) zeroCells) \<and>
   (\<forall>c. exactMass (p2g1Deposits setupUniforms centredParticles [0, 1]) c < 2147483648) \<and>
   0 \<in> set [0, 1 :: nat] \<and> 0 < particleCountUniform setupUniforms \<and>
   (\<exists>density. p2g2Density (particlePosition (centredParticles 0))
        (scatter (p2g1Deposits setupUniforms centredParticles [0, 1]) zeroCells) = Inr density \<and>
      0 < density \<and> ownDensity (particlePosition (centredParticles 0)) \<le> density) \<and>
   (\<exists>cb2. compute (p2g2Kernel setupUniforms centredParticles) [0, 1]
        (scatter (p2g1Deposits setupUniforms centredParticles [0, 1]) zeroCells) = Inr cb2)"
proof -
  let ?cb1 = "scatter (p2g1Deposits setupUniforms centredParticles [0, 1]) zeroCells"
  have z: "decodeFixedPoint (cell_mass (zeroCells 0)) \<le> 0"
    by (simp add: zeroCells_def decodeFixedPoint_def toFloat_def)
  have f: "\<forall>c. exactMass (p2g1Deposits setupUniforms centredParticles [0, 1]) c < 2147483648"
    by (simp add: centred_fits)
  have h: "massCleared zeroCells \<and>
      compute (p2g1Kernel setupUniforms centredParticles) [0, 1] zeroCells = Inr ?cb1 \<and>
      (\<forall>c. exactMass (p2g1Deposits setupUniforms centredParticles [0, 1]) c < 2147483648)"
    using massCleared_zeroCells centred_run [of "[0, 1]"] f by blast
  have m: "0 \<in> set [0, 1 :: nat]" by simp
  have c: "0 < particleCountUniform setupUniforms"
    by (simp add: setupUniforms_def)
  note T = no_division_by_zero [of zeroCells 0 zeroFloatCells zeroCells setupUniforms
      centredParticles "[0, 1]" ?cb1]
  have 1: "updateGridKernel zeroCells 0 zeroFloatCells = zeroFloatCells"
    using T [THEN conjunct1] z by blast
  note U = T [THEN conjunct2, THEN mp, OF h]
  have 2: "\<exists>density. p2g2Density (particlePosition (centredParticles 0)) ?cb1 = Inr density \<and>
      0 < density \<and> ownDensity (particlePosition (centredParticles 0)) \<le> density"
    using U [THEN conjunct1, THEN bspec, OF m] c by blast
  have 3: "\<exists>cb2. compute (p2g2Kernel setupUniforms centredParticles) [0, 1] ?cb1 = Inr cb2"
    by (rule U [THEN conjunct2])
  show ?thesis
    using z 1 h m c 2 3 by blast
qed

text \<open>
  Claim C7. Running the invocations of \<^verbatim>\<open>p2g1Kernel\<close>, and of \<^verbatim>\<open>p2g2Kernel\<close>, in any
  permutation of the instance order leaves the same accumulator values in every cell: the two
  runs of \<^verbatim>\<open>p2g1Kernel\<close> return the same result, and the two runs of \<^verbatim>\<open>p2g2Kernel\<close> either
  both fail or return the same cell buffer.
\<close>

theorem scatter_order_independent:
  "mset is = mset js \<longrightarrow>
     compute (p2g1Kernel u pb) is cb = compute (p2g1Kernel u pb) js cb \<and>
     finalAccumulators (compute (p2g2Kernel u pb) is cb) =
       finalAccumulators (compute (p2g2Kernel u pb) js cb)"
  using compute_p2g1Kernel_perm [of "is" js u pb cb] compute_p2g2Kernel_perm [of "is" js u pb cb]
  by simp

theorem scatter_order_independent_witness:
  "mset [0, 1] = mset [1, 0 :: nat] \<and>
   compute (p2g1Kernel setupUniforms centredParticles) [0, 1] zeroCells =
     compute (p2g1Kernel setupUniforms centredParticles) [1, 0] zeroCells \<and>
   finalAccumulators (compute (p2g1Kernel setupUniforms centredParticles) [0, 1] zeroCells) \<noteq> None \<and>
   finalAccumulators (compute (p2g2Kernel setupUniforms centredParticles) [0, 1]
       (scatter (p2g1Deposits setupUniforms centredParticles [0, 1]) zeroCells)) =
     finalAccumulators (compute (p2g2Kernel setupUniforms centredParticles) [1, 0]
       (scatter (p2g1Deposits setupUniforms centredParticles [0, 1]) zeroCells)) \<and>
   finalAccumulators (compute (p2g2Kernel setupUniforms centredParticles) [0, 1]
       (scatter (p2g1Deposits setupUniforms centredParticles [0, 1]) zeroCells)) \<noteq> None"
proof -
  let ?cb1 = "scatter (p2g1Deposits setupUniforms centredParticles [0, 1]) zeroCells"
  have p: "mset [0, 1] = mset [1, 0 :: nat]"
    by simp
  have f: "\<forall>c. exactMass (p2g1Deposits setupUniforms centredParticles [0, 1]) c < 2147483648"
    by (simp add: centred_fits)
  have 1: "finalAccumulators (compute (p2g1Kernel setupUniforms centredParticles) [0, 1] zeroCells)
      \<noteq> None"
    by (simp add: centred_run finalAccumulators_def)
  have "list_all (p2g2Ready setupUniforms centredParticles ?cb1) [0, 1]"
    by (rule p2g1_ready [OF massCleared_zeroCells centred_run f])
  then have 2: "finalAccumulators (compute (p2g2Kernel setupUniforms centredParticles) [0, 1] ?cb1)
      \<noteq> None"
    by (simp add: compute_p2g2Kernel_ready finalAccumulators_def)
  note T = scatter_order_independent [of "[0, 1]" "[1, 0]" setupUniforms centredParticles,
      THEN mp, OF p]
  show ?thesis
    using p 1 2 T [of zeroCells, THEN conjunct1] T [of ?cb1, THEN conjunct2] by blast
qed

end
